theory Spec2Isabelle
  imports Complex_Main "HOL-Library.Monad_Syntax"
begin

section \<open>Numeric containers\<close>

text \<open>
  The C++ type \<open>double\<close> is modelled by \<^typ>\<open>real\<close>: every statement below is about
  the exact-arithmetic reading of the program, without rounding. The type \<open>int\<close> has 32
  bits. The tensor classes compute the row and the column of a cell from the indices and
  the extents with \<open>int\<close> products and sums, and there the width matters: \<open>int32\<close>
  reduces a result to the two's-complement range, as the machine does (signed overflow is
  undefined in C++), and \<open>mul32\<close> and \<open>add32\<close> are the product and the sum of two \<open>int\<close>s.
  Loop counters and angular momenta stay far inside the range and are plain integers.
\<close>

definition int32 :: "int \<Rightarrow> int" where
  "int32 x = (x + 2 ^ 31) mod 2 ^ 32 - 2 ^ 31"

definition mul32 :: "int \<Rightarrow> int \<Rightarrow> int" where
  "mul32 a b = int32 (a * b)"

definition add32 :: "int \<Rightarrow> int \<Rightarrow> int" where
  "add32 a b = int32 (a + b)"

text \<open>
  Modelled from the spec: the class \<open>Matrix\<close> of \<open>matrix.hpp\<close> is not among the
  sources. The spec describes it as a dense 2-D numeric array with resizing and element
  access; a tensor that was just constructed reads as zero (``implicitly zero'').
  A cell is addressed by its (row, column) pair; an access is inside the matrix when
  \<open>in_Matrix\<close> holds.
\<close>

record Matrix =
  nrows :: int
  ncols :: int
  cells :: "int \<times> int \<Rightarrow> real"

definition Matrix_resize :: "int \<Rightarrow> int \<Rightarrow> Matrix" where
  "Matrix_resize r c = \<lparr>nrows = r, ncols = c, cells = (\<lambda>_. 0)\<rparr>"

definition Matrix_get :: "Matrix \<Rightarrow> int \<Rightarrow> int \<Rightarrow> real" where
  "Matrix_get M r c = cells M (r, c)"

definition Matrix_set :: "Matrix \<Rightarrow> int \<Rightarrow> int \<Rightarrow> real \<Rightarrow> Matrix" where
  "Matrix_set M r c v = M\<lparr>cells := (cells M)((r, c) := v)\<rparr>"

definition in_Matrix :: "Matrix \<Rightarrow> int \<times> int \<Rightarrow> bool" where
  "in_Matrix M rc = (0 \<le> fst rc \<and> fst rc < nrows M \<and> 0 \<le> snd rc \<and> snd rc < ncols M)"

subsection \<open>ThreeIndex\<close>

record ThreeIndex =
  dims3 :: "int list"
  data3 :: Matrix

text \<open>\<open>ThreeIndex::ThreeIndex(int dim1, int dim2, int dim3)\<close>\<close>

definition ThreeIndex_new :: "int \<Rightarrow> int \<Rightarrow> int \<Rightarrow> ThreeIndex" where
  "ThreeIndex_new dim1 dim2 dim3 =
     \<lparr>dims3 = [dim1, dim2, dim3], data3 = Matrix_resize dim1 (mul32 dim2 dim3)\<rparr>"

text \<open>The cell that \<open>operator()(i, j, k)\<close> addresses: \<open>data(i, j*dims[2]+k)\<close>.\<close>

definition ThreeIndex_cell :: "ThreeIndex \<Rightarrow> int \<Rightarrow> int \<Rightarrow> int \<Rightarrow> int \<times> int" where
  "ThreeIndex_cell T i j k = (i, add32 (mul32 j (dims3 T ! 2)) k)"

definition ThreeIndex_get :: "ThreeIndex \<Rightarrow> int \<Rightarrow> int \<Rightarrow> int \<Rightarrow> real" where
  "ThreeIndex_get T i j k = cells (data3 T) (ThreeIndex_cell T i j k)"

definition ThreeIndex_set :: "ThreeIndex \<Rightarrow> int \<Rightarrow> int \<Rightarrow> int \<Rightarrow> real \<Rightarrow> ThreeIndex" where
  "ThreeIndex_set T i j k v =
     T\<lparr>data3 := (data3 T)\<lparr>cells := (cells (data3 T))(ThreeIndex_cell T i j k := v)\<rparr>\<rparr>"

definition ThreeIndex_in_range :: "ThreeIndex \<Rightarrow> int \<Rightarrow> int \<Rightarrow> int \<Rightarrow> bool" where
  "ThreeIndex_in_range T i j k =
     (0 \<le> i \<and> i < dims3 T ! 0 \<and> 0 \<le> j \<and> j < dims3 T ! 1 \<and> 0 \<le> k \<and> k < dims3 T ! 2)"

subsection \<open>FiveIndex\<close>

record FiveIndex =
  dims5 :: "int list"
  data5 :: Matrix

definition FiveIndex_new :: "int \<Rightarrow> int \<Rightarrow> int \<Rightarrow> int \<Rightarrow> int \<Rightarrow> FiveIndex" where
  "FiveIndex_new dim1 dim2 dim3 dim4 dim5 =
     \<lparr>dims5 = [dim1, dim2, dim3, dim4, dim5],
      data5 = Matrix_resize (mul32 dim1 dim2) (mul32 (mul32 dim3 dim4) dim5)\<rparr>"

text \<open>\<open>data(i*dims[1] + j, k*dims[3]*dims[4] + l*dims[4] + m)\<close>\<close>

definition FiveIndex_cell ::
  "FiveIndex \<Rightarrow> int \<Rightarrow> int \<Rightarrow> int \<Rightarrow> int \<Rightarrow> int \<Rightarrow> int \<times> int" where
  "FiveIndex_cell T i j k l m =
     (add32 (mul32 i (dims5 T ! 1)) j,
      add32 (add32 (mul32 (mul32 k (dims5 T ! 3)) (dims5 T ! 4)) (mul32 l (dims5 T ! 4))) m)"

definition FiveIndex_get :: "FiveIndex \<Rightarrow> int \<Rightarrow> int \<Rightarrow> int \<Rightarrow> int \<Rightarrow> int \<Rightarrow> real" where
  "FiveIndex_get T i j k l m = cells (data5 T) (FiveIndex_cell T i j k l m)"

definition FiveIndex_set ::
  "FiveIndex \<Rightarrow> int \<Rightarrow> int \<Rightarrow> int \<Rightarrow> int \<Rightarrow> int \<Rightarrow> real \<Rightarrow> FiveIndex" where
  "FiveIndex_set T i j k l m v =
     T\<lparr>data5 := (data5 T)\<lparr>cells := (cells (data5 T))(FiveIndex_cell T i j k l m := v)\<rparr>\<rparr>"

definition FiveIndex_in_range ::
  "FiveIndex \<Rightarrow> int \<Rightarrow> int \<Rightarrow> int \<Rightarrow> int \<Rightarrow> int \<Rightarrow> bool" where
  "FiveIndex_in_range T i j k l m =
     (0 \<le> i \<and> i < dims5 T ! 0 \<and> 0 \<le> j \<and> j < dims5 T ! 1 \<and> 0 \<le> k \<and> k < dims5 T ! 2 \<and>
      0 \<le> l \<and> l < dims5 T ! 3 \<and> 0 \<le> m \<and> m < dims5 T ! 4)"

subsection \<open>SevenIndex\<close>

record SevenIndex =
  dims7 :: "int list"
  data7 :: Matrix

definition SevenIndex_new ::
  "int \<Rightarrow> int \<Rightarrow> int \<Rightarrow> int \<Rightarrow> int \<Rightarrow> int \<Rightarrow> int \<Rightarrow> SevenIndex" where
  "SevenIndex_new dim1 dim2 dim3 dim4 dim5 dim6 dim7 =
     \<lparr>dims7 = [dim1, dim2, dim3, dim4, dim5, dim6, dim7],
      data7 = Matrix_resize (mul32 (mul32 dim1 dim2) dim3)
                (mul32 (mul32 (mul32 dim4 dim5) dim6) dim7)\<rparr>"

text \<open>
  \<open>data(i*dims[1]*dims[2] + j*dims[2] + k,
        l*dims[4]*dims[5]*dims[6] + m*dims[5]*dims[6] + n*dims[6] + p)\<close>
\<close>

definition SevenIndex_cell ::
  "SevenIndex \<Rightarrow> int \<Rightarrow> int \<Rightarrow> int \<Rightarrow> int \<Rightarrow> int \<Rightarrow> int \<Rightarrow> int \<Rightarrow> int \<times> int" where
  "SevenIndex_cell T i j k l m n p =
     (add32 (add32 (mul32 (mul32 i (dims7 T ! 1)) (dims7 T ! 2)) (mul32 j (dims7 T ! 2))) k,
      add32 (add32 (add32 (mul32 (mul32 (mul32 l (dims7 T ! 4)) (dims7 T ! 5)) (dims7 T ! 6))
                      (mul32 (mul32 m (dims7 T ! 5)) (dims7 T ! 6)))
               (mul32 n (dims7 T ! 6))) p)"

definition SevenIndex_get ::
  "SevenIndex \<Rightarrow> int \<Rightarrow> int \<Rightarrow> int \<Rightarrow> int \<Rightarrow> int \<Rightarrow> int \<Rightarrow> int \<Rightarrow> real" where
  "SevenIndex_get T i j k l m n p = cells (data7 T) (SevenIndex_cell T i j k l m n p)"

definition SevenIndex_set ::
  "SevenIndex \<Rightarrow> int \<Rightarrow> int \<Rightarrow> int \<Rightarrow> int \<Rightarrow> int \<Rightarrow> int \<Rightarrow> int \<Rightarrow> real \<Rightarrow> SevenIndex" where
  "SevenIndex_set T i j k l m n p v =
     T\<lparr>data7 := (data7 T)\<lparr>cells := (cells (data7 T))(SevenIndex_cell T i j k l m n p := v)\<rparr>\<rparr>"

definition SevenIndex_in_range ::
  "SevenIndex \<Rightarrow> int \<Rightarrow> int \<Rightarrow> int \<Rightarrow> int \<Rightarrow> int \<Rightarrow> int \<Rightarrow> int \<Rightarrow> bool" where
  "SevenIndex_in_range T i j k l m n p =
     (0 \<le> i \<and> i < dims7 T ! 0 \<and> 0 \<le> j \<and> j < dims7 T ! 1 \<and> 0 \<le> k \<and> k < dims7 T ! 2 \<and>
      0 \<le> l \<and> l < dims7 T ! 3 \<and> 0 \<le> m \<and> m < dims7 T ! 4 \<and> 0 \<le> n \<and> n < dims7 T ! 5 \<and>
      0 \<le> p \<and> p < dims7 T ! 6)"

section \<open>Operators of C++ and the factorial table\<close>

text \<open>
  The operator \<open>%\<close> of C++ on \<open>int\<close> truncates towards zero: the remainder has the sign
  of the dividend.
\<close>

definition c_mod :: "int \<Rightarrow> int \<Rightarrow> int" where
  "c_mod a b = sgn a * (\<bar>a\<bar> mod \<bar>b\<bar>)"

text \<open>The operator \<open>/\<close> of C++ on \<open>int\<close> truncates towards zero as well.\<close>

definition c_div :: "int \<Rightarrow> int \<Rightarrow> int" where
  "c_div a b = sgn a * sgn b * (\<bar>a\<bar> div \<bar>b\<bar>)"

text \<open>The indices visited by \<open>for (int x = a; x <= b; x += 2)\<close>.\<close>

function range2 :: "int \<Rightarrow> int \<Rightarrow> int list" where
  "range2 a b = (if a \<le> b then a # range2 (a + 2) b else [])"
  by pat_completeness auto
termination
  by (relation "measure (\<lambda>(a, b). nat (b + 1 - a))") auto

declare range2.simps [simp del]

text \<open>\<open>static std::vector<double> facArray(int l)\<close>\<close>

definition facArray :: "int \<Rightarrow> real list" where
  "facArray l =
     (let values = replicate (nat (l + 1)) 0
      in if l > - 1
         then foldl (\<lambda>values i. values[nat i := values ! nat (i - 1) * real_of_int i])
                (values[0 := 1]) [1..l]
         else values)"

text \<open>
  \<open>fac[i]\<close> on a \<open>std::vector<double>\<close>: \<open>operator[]\<close> does not check its index, and a
  read outside the vector has no defined value. The angular integrals read the table
  through \<open>vec_at\<close>, which is \<open>None\<close> outside the vector, and a computation that reads is
  \<open>None\<close> as soon as one of its reads is. \<open>foldl_option\<close> is a
  \<open>for\<close> loop over the indices of a list whose body is such a computation.
\<close>

definition vec_at :: "real list \<Rightarrow> int \<Rightarrow> real option" where
  "vec_at v i = (if 0 \<le> i \<and> i < int (length v) then Some (v ! nat i) else None)"

primrec foldl_option :: "('s \<Rightarrow> 'a \<Rightarrow> 's option) \<Rightarrow> 's \<Rightarrow> 'a list \<Rightarrow> 's option" where
  "foldl_option f s [] = Some s"
| "foldl_option f s (x # xs) = Option.bind (f s x) (\<lambda>s'. foldl_option f s' xs)"

section \<open>Angular integrals: the table of \<open>AngularIntegral::Pijk\<close>\<close>

text \<open>
  \<open>ThreeIndex AngularIntegral::Pijk(int maxI) const\<close>: the three nested \<open>for\<close> loops,
  innermost first. Each loop is a left fold over its index range, threading the table.
\<close>

definition Pijk_k_loop :: "ThreeIndex \<Rightarrow> int \<Rightarrow> int \<Rightarrow> ThreeIndex" where
  "Pijk_k_loop values i j =
     foldl (\<lambda>values k. ThreeIndex_set values i j k
              (ThreeIndex_get values i j (k - 1) * (2 * real_of_int k - 1)
                 / (2 * real_of_int (i + j + k) + 1)))
       values [1..j]"

definition Pijk_j_loop :: "ThreeIndex \<Rightarrow> int \<Rightarrow> ThreeIndex" where
  "Pijk_j_loop values i =
     foldl (\<lambda>values j. Pijk_k_loop
              (ThreeIndex_set values i j 0
                 (ThreeIndex_get values i (j - 1) 0 * (2 * real_of_int j - 1)
                    / (2 * real_of_int (i + j) + 1))) i j)
       values [1..i]"

definition Pijk :: "int \<Rightarrow> ThreeIndex" where
  "Pijk maxI =
     (let dim = maxI + 1;
          values = ThreeIndex_new dim dim dim;
          pi4 = 4 * pi;
          values = ThreeIndex_set values 0 0 0 pi4
      in foldl (\<lambda>values i.
                  Pijk_j_loop (ThreeIndex_set values i 0 0 (pi4 / real_of_int (2 * i + 1))) i)
           values [1..maxI])"

section \<open>Radial integrals: \<open>RadialIntegral::integrate\<close>\<close>

text \<open>
  Modelled from the spec: the class \<open>GCQuadrature\<close> is not among the sources. The spec
  describes a quadrature grid as an ordered sequence of abscissae (\<open>getX()\<close>, their count
  \<open>getN()\<close>), a current window \<open>[start, end]\<close> and a last-computed integral value
  (\<open>getI()\<close>). Its adaptive quadrature routine \<open>grid.integrate(f, params, tolerance)\<close> is a
  parameter \<open>gint\<close> of the model: it receives the grid and the parameter array and gives
  back the convergence flag and the grid as it leaves it.
\<close>

record GCQuadrature =
  grid_N :: int
  grid_x :: "real list"
  grid_start :: int
  grid_end :: int
  grid_I :: real

type_synonym quadrature = "GCQuadrature \<Rightarrow> (int \<Rightarrow> real) \<Rightarrow> real \<Rightarrow> int \<times> GCQuadrature"

text \<open>
  The local state of \<open>integrate\<close>: the array \<open>params\<close>, the grid, the output vector
  \<open>values\<close> and the flag \<open>test\<close>. The flag is declared without an initialiser
  (\<open>int test;\<close>), so it is \<open>None\<close> until it is assigned. \<open>ist_calls\<close> and
  \<open>ist_integrands\<close> are not variables of the source: they record, oldest first, each call
  of the quadrature, as the pair of the index \<open>l\<close> and the flag the call returned, and as
  the parameter array the call was given (the integrand: \<open>integrand(r, p, ix)\<close> is \<open>p[ix]\<close>).
\<close>

record integrate_state =
  ist_params :: "int \<Rightarrow> real"
  ist_grid :: GCQuadrature
  ist_values :: "real list"
  ist_test :: "int option"
  ist_calls :: "(int \<times> int) list"
  ist_integrands :: "(int \<Rightarrow> real) list"

text \<open>One pass of the body of \<open>for (int l = offset; l <= maxL; l+=skip)\<close>, up to the \<open>break\<close>.\<close>

definition integrate_body ::
  "quadrature \<Rightarrow> real \<Rightarrow> Matrix \<Rightarrow> int \<Rightarrow> integrate_state \<Rightarrow> integrate_state" where
  "integrate_body gint tolerance intValues l s =
     (let params = foldl (\<lambda>p i. p(i := Matrix_get intValues l i)) (ist_params s)
                     [grid_start (ist_grid s)..grid_end (ist_grid s)];
          res = gint (ist_grid s) params tolerance;
          test = fst res;
          grid = snd res;
          values = (ist_values s)[nat l := grid_I grid]
      in \<lparr>ist_params = params, ist_grid = grid, ist_values = values, ist_test = Some test,
          ist_calls = ist_calls s @ [(l, test)],
          ist_integrands = ist_integrands s @ [params]\<rparr>)"

text \<open>
  The loop itself. Nothing bounds it when \<open>skip \<le> 0\<close>, so it is a partial function: the
  value \<open>None\<close> stands for a loop that does not return.
\<close>

partial_function (option) integrate_loop ::
  "quadrature \<Rightarrow> real \<Rightarrow> Matrix \<Rightarrow> int \<Rightarrow> int \<Rightarrow> int \<Rightarrow> integrate_state \<Rightarrow> integrate_state option"
where
  "integrate_loop gint tolerance intValues maxL skip l s =
     (if l \<le> maxL then
        (if ist_test (integrate_body gint tolerance intValues l s) = Some 0
         then Some (integrate_body gint tolerance intValues l s)
         else integrate_loop gint tolerance intValues maxL skip (l + skip)
                (integrate_body gint tolerance intValues l s))
      else Some s)"

text \<open>
  \<open>int RadialIntegral::integrate(maxL, gridSize, intValues, grid, values, offset, skip)\<close>.
  \<open>params0\<close> is the content of the local array \<open>params\<close> before anything is stored in it.
  The result is the final state: \<open>ist_test\<close> is the value returned, \<open>ist_values\<close> the
  output vector.
\<close>

definition integrate ::
  "quadrature \<Rightarrow> real \<Rightarrow> (int \<Rightarrow> real) \<Rightarrow> int \<Rightarrow> int \<Rightarrow> Matrix \<Rightarrow> GCQuadrature \<Rightarrow> int \<Rightarrow> int
     \<Rightarrow> integrate_state option" where
  "integrate gint tolerance params0 maxL gridSize intValues grid offset skip =
     (let values = replicate (nat (maxL + 1)) 0;
          params = foldl (\<lambda>p i. p(i := 0)) params0 [0..grid_start grid - 1];
          params = foldl (\<lambda>p i. p(i := 0)) params [grid_end grid + 1..gridSize - 1]
      in integrate_loop gint tolerance intValues maxL skip offset
           \<lparr>ist_params = params, ist_grid = grid, ist_values = values, ist_test = None,
            ist_calls = [], ist_integrands = []\<rparr>)"


text \<open>
  A small concrete run, used to instantiate the theorems: a grid of one point, integrand
  rows \<open>intValues(l, 0) = l\<close>, and a stand-in quadrature that stores \<open>params[0]\<close> as the
  integral and reports convergence exactly when it is below 1.
\<close>

definition wit_gint :: quadrature where
  "wit_gint g p tol = (if p 0 < 1 then 1 else 0, g\<lparr>grid_I := p 0\<rparr>)"

definition wit_grid :: GCQuadrature where
  "wit_grid = \<lparr>grid_N = 1, grid_x = [1], grid_start = 0, grid_end = 0, grid_I = 0\<rparr>"

definition wit_intValues :: Matrix where
  "wit_intValues = \<lparr>nrows = 3, ncols = 1, cells = (\<lambda>rc. real_of_int (fst rc))\<rparr>"

section \<open>Radial integrals: \<open>RadialIntegral::buildU\<close>\<close>

text \<open>
  The class \<open>ECP\<close> is not among the sources; its method \<open>U.evaluate(r, l)\<close> is the
  parameter \<open>U\<close>. \<open>pow(r, N+2)\<close> has an integer exponent and is the integer power
  \<open>r powi (N + 2)\<close>. The state of the loop is the array \<open>Utab\<close>, the grid and the local
  \<open>foundStart\<close>.
\<close>

record buildU_state =
  bu_Utab :: "int \<Rightarrow> real"
  bu_grid :: GCQuadrature
  bu_foundStart :: bool

text \<open>The body of \<open>for (int i = 0; i < gridSize; i++)\<close>: the store and the two \<open>if\<close>s in order.\<close>

definition buildU_body ::
  "(real \<Rightarrow> int \<Rightarrow> real) \<Rightarrow> real \<Rightarrow> int \<Rightarrow> int \<Rightarrow> buildU_state \<Rightarrow> int \<Rightarrow> buildU_state" where
  "buildU_body U tolerance l N s i =
     (let r = grid_x (bu_grid s) ! nat i;
          s = s\<lparr>bu_Utab := (bu_Utab s)(i := r powi (N + 2) * U r l)\<rparr>;
          s = (if bu_Utab s i > tolerance \<and> \<not> bu_foundStart s
               then s\<lparr>bu_grid := (bu_grid s)\<lparr>grid_start := i\<rparr>, bu_foundStart := True\<rparr>
               else s);
          s = (if bu_Utab s i < tolerance \<and> bu_foundStart s
               then s\<lparr>bu_grid := (bu_grid s)\<lparr>grid_end := i - 1\<rparr>, bu_foundStart := False\<rparr>
               else s)
      in s)"

text \<open>
  \<open>void RadialIntegral::buildU(ECP &U, int l, int N, GCQuadrature &grid, double *Utab)\<close>:
  the result is the array and the grid as the call leaves them.
\<close>

definition buildU ::
  "(real \<Rightarrow> int \<Rightarrow> real) \<Rightarrow> real \<Rightarrow> int \<Rightarrow> int \<Rightarrow> GCQuadrature \<Rightarrow> (int \<Rightarrow> real)
     \<Rightarrow> (int \<Rightarrow> real) \<times> GCQuadrature" where
  "buildU U tolerance l N grid Utab =
     (let gridSize = grid_N grid;
          s = foldl (buildU_body U tolerance l N)
                \<lparr>bu_Utab = Utab, bu_grid = grid, bu_foundStart = False\<rparr> [0..gridSize - 1]
      in (bu_Utab s, bu_grid s))"

text \<open>
  Three potentials on the grid of abscissae 1, 2, 3, with the window reset to
  \<open>start = 0\<close>, \<open>end = gridSize\<close> as \<open>type1\<close> and \<open>type2\<close> do before they call \<open>buildU\<close>.
\<close>

definition ex_grid3 :: GCQuadrature where
  "ex_grid3 = \<lparr>grid_N = 3, grid_x = [1, 2, 3], grid_start = 0, grid_end = 3, grid_I = 0\<rparr>"

definition ex_U_well :: "real \<Rightarrow> int \<Rightarrow> real" where
  "ex_U_well r l = (r - 2)\<^sup>2"

definition ex_U_negative :: "real \<Rightarrow> int \<Rightarrow> real" where
  "ex_U_negative r l = - 1"

definition ex_U_ramp :: "real \<Rightarrow> int \<Rightarrow> real" where
  "ex_U_ramp r l = (3 - r) / r\<^sup>2"

definition ex_U_step :: "real \<Rightarrow> int \<Rightarrow> real" where
  "ex_U_step r l = 2 - r"

definition ex_ones :: Matrix where
  "ex_ones = \<lparr>nrows = 1, ncols = 3, cells = (\<lambda>_. 1)\<rparr>"

section \<open>Angular integrals: \<open>AngularIntegral::makeOmega\<close>\<close>

text \<open>
  The members of \<open>AngularIntegral\<close> that \<open>init\<close>, \<open>makeOmega\<close> and \<open>getIntegral\<close> use
  (the class is declared in \<open>ecpint.hpp\<close>, which is not among the sources).
\<close>

record AngularIntegral =
  ang_LB :: int
  ang_LE :: int
  ang_wDim :: int
  ang_maxL :: int
  ang_W :: FiveIndex
  ang_omega :: SevenIndex

text \<open>\<open>void AngularIntegral::init(int _LB, int _LE)\<close>\<close>

definition AngularIntegral_init :: "AngularIntegral \<Rightarrow> int \<Rightarrow> int \<Rightarrow> AngularIntegral" where
  "AngularIntegral_init A LB LE =
     A\<lparr>ang_LB := LB, ang_LE := LE,
       ang_wDim := (if 4 * LB > 3 * LB + LE then 4 * LB else 3 * LB + LE),
       ang_maxL := (if 2 * LB > LB + LE then 2 * LB else LB + LE)\<rparr>"

text \<open>
  The two innermost loops of \<open>makeOmega\<close> (over \<open>i\<close> and \<open>j\<close>), which accumulate the pair
  \<open>(om_plus, om_minus)\<close> from zero.
\<close>

definition makeOmega_sum ::
  "FiveIndex \<Rightarrow> FiveIndex \<Rightarrow> int \<Rightarrow> int \<Rightarrow> int \<Rightarrow> int \<Rightarrow> int \<Rightarrow> int \<Rightarrow> int \<Rightarrow> real \<times> real" where
  "makeOmega_sum U W k l m rho sigma lam mu =
     foldl (\<lambda>om i.
        foldl (\<lambda>om j.
           (let wval = FiveIndex_get W (k + i) (l + j) (m + lam - i - j) rho (rho + sigma)
            in (fst om + FiveIndex_get U lam mu i j 0 * wval,
                snd om + FiveIndex_get U lam mu i j 1 * wval)))
          om [0..lam - i])
       (0, 0) [0..lam]"

text \<open>The body of the loop over \<open>mu\<close>: the sums, the case \<open>mu == 0\<close>, and the four stores.\<close>

definition makeOmega_mu ::
  "FiveIndex \<Rightarrow> FiveIndex \<Rightarrow> int \<Rightarrow> int \<Rightarrow> int \<Rightarrow> int \<Rightarrow> int \<Rightarrow> int \<Rightarrow> SevenIndex \<Rightarrow> int
     \<Rightarrow> SevenIndex" where
  "makeOmega_mu U W k l m rho sigma lam values mu =
     (let om = makeOmega_sum U W k l m rho sigma lam mu;
          om_plus = fst om;
          om_minus = (if mu = 0 then om_plus else snd om);
          values = SevenIndex_set values k l m rho (sigma + rho) lam (lam + mu) om_plus;
          values = SevenIndex_set values k l m lam (lam + mu) rho (sigma + rho) om_plus;
          values = SevenIndex_set values k l m rho (sigma + rho) lam (lam - mu) om_minus;
          values = SevenIndex_set values k l m lam (lam - mu) rho (sigma + rho) om_minus
      in values)"

text \<open>The loops over \<open>lam\<close>, \<open>sigma\<close>, \<open>rho\<close>, \<open>m\<close>, \<open>l\<close> and \<open>k\<close>, innermost first.\<close>

definition makeOmega_lam ::
  "FiveIndex \<Rightarrow> FiveIndex \<Rightarrow> int \<Rightarrow> int \<Rightarrow> int \<Rightarrow> int \<Rightarrow> int \<Rightarrow> SevenIndex \<Rightarrow> int \<Rightarrow> SevenIndex" where
  "makeOmega_lam U W k l m rho sigma values lam =
     foldl (makeOmega_mu U W k l m rho sigma lam) values [0..lam]"

definition makeOmega_sigma ::
  "FiveIndex \<Rightarrow> FiveIndex \<Rightarrow> int \<Rightarrow> int \<Rightarrow> int \<Rightarrow> int \<Rightarrow> SevenIndex \<Rightarrow> int \<Rightarrow> SevenIndex" where
  "makeOmega_sigma U W k l m rho values sigma =
     foldl (makeOmega_lam U W k l m rho sigma) values [0..rho]"

definition makeOmega_rho ::
  "FiveIndex \<Rightarrow> FiveIndex \<Rightarrow> int \<Rightarrow> int \<Rightarrow> int \<Rightarrow> SevenIndex \<Rightarrow> int \<Rightarrow> SevenIndex" where
  "makeOmega_rho U W k l m values rho =
     foldl (makeOmega_sigma U W k l m rho) values [- rho..rho]"

definition makeOmega_m ::
  "FiveIndex \<Rightarrow> FiveIndex \<Rightarrow> int \<Rightarrow> int \<Rightarrow> int \<Rightarrow> SevenIndex \<Rightarrow> int \<Rightarrow> SevenIndex" where
  "makeOmega_m U W lamDim k l values m =
     foldl (makeOmega_rho U W k l m) values [0..lamDim]"

definition makeOmega_l ::
  "FiveIndex \<Rightarrow> FiveIndex \<Rightarrow> int \<Rightarrow> int \<Rightarrow> int \<Rightarrow> SevenIndex \<Rightarrow> int \<Rightarrow> SevenIndex" where
  "makeOmega_l U W LB lamDim k values l =
     foldl (makeOmega_m U W lamDim k l) values [0..LB]"

definition makeOmega_k ::
  "FiveIndex \<Rightarrow> FiveIndex \<Rightarrow> int \<Rightarrow> int \<Rightarrow> SevenIndex \<Rightarrow> int \<Rightarrow> SevenIndex" where
  "makeOmega_k U W LB lamDim values k =
     foldl (makeOmega_l U W LB lamDim k) values [0..LB]"

text \<open>\<open>void AngularIntegral::makeOmega(FiveIndex &U)\<close>\<close>

definition makeOmega :: "AngularIntegral \<Rightarrow> FiveIndex \<Rightarrow> AngularIntegral" where
  "makeOmega A U =
     (let LB = ang_LB A;
          lamDim = ang_LE A + LB;
          muDim = 2 * lamDim + 1;
          values = SevenIndex_new (LB + 1) (LB + 1) (LB + 1) (lamDim + 1) (muDim + 1)
                     (lamDim + 1) (muDim + 1);
          values = foldl (makeOmega_k U (ang_W A) LB lamDim) values [0..LB]
      in A\<lparr>ang_omega := values\<rparr>)"

text \<open>
  \<open>double AngularIntegral::getIntegral(int k, int l, int m, int lam, int mu, int rho,
  int sigma) const\<close>, the lookup in the Omega table.
\<close>

definition getIntegral7 ::
  "AngularIntegral \<Rightarrow> int \<Rightarrow> int \<Rightarrow> int \<Rightarrow> int \<Rightarrow> int \<Rightarrow> int \<Rightarrow> int \<Rightarrow> real" where
  "getIntegral7 A k l m lam mu rho sigma =
     SevenIndex_get (ang_omega A) k l m lam (lam + mu) rho (rho + sigma)"

text \<open>
  For the proofs: a cell of the Omega table as a tuple, the cell with the two index pairs
  exchanged, and a table of extents \<open>D\<close>, within the range of the index arithmetic, that
  agrees on every cell of a set with the exchanged cell.
\<close>

type_synonym index7 = "int \<times> int \<times> int \<times> int \<times> int \<times> int \<times> int"

fun SevenIndex_at :: "SevenIndex \<Rightarrow> index7 \<Rightarrow> real" where
  "SevenIndex_at T (k, l, m, a, b, c, d) = SevenIndex_get T k l m a b c d"

fun SevenIndex_put :: "SevenIndex \<Rightarrow> index7 \<Rightarrow> real \<Rightarrow> SevenIndex" where
  "SevenIndex_put T (k, l, m, a, b, c, d) v = SevenIndex_set T k l m a b c d v"

fun SevenIndex_inside :: "int list \<Rightarrow> index7 \<Rightarrow> bool" where
  "SevenIndex_inside D (k, l, m, a, b, c, d) =
     (0 \<le> k \<and> k < D ! 0 \<and> 0 \<le> l \<and> l < D ! 1 \<and> 0 \<le> m \<and> m < D ! 2 \<and>
      0 \<le> a \<and> a < D ! 3 \<and> 0 \<le> b \<and> b < D ! 4 \<and> 0 \<le> c \<and> c < D ! 5 \<and>
      0 \<le> d \<and> d < D ! 6)"

fun exchange7 :: "index7 \<Rightarrow> index7" where
  "exchange7 (k, l, m, a, b, c, d) = (k, l, m, c, d, a, b)"

definition symmetric_on :: "int list \<Rightarrow> index7 set \<Rightarrow> SevenIndex \<Rightarrow> bool" where
  "symmetric_on D S T =
     (dims7 T = D \<and>
      D ! 0 * D ! 1 * D ! 2 < 2 ^ 31 \<and> D ! 3 * D ! 4 * D ! 5 * D ! 6 < 2 ^ 31 \<and>
      (\<forall>X\<in>S. exchange7 X \<in> S \<and> SevenIndex_inside D X \<and>
         SevenIndex_at T X = SevenIndex_at T (exchange7 X)))"

text \<open>The four cells stored by one pass of the loop over \<open>mu\<close>.\<close>

definition makeOmega_cells :: "int \<Rightarrow> int \<Rightarrow> int \<Rightarrow> int \<Rightarrow> int \<Rightarrow> int \<Rightarrow> int \<Rightarrow> index7 set" where
  "makeOmega_cells k l m rho sigma lam mu =
     {(k, l, m, rho, sigma + rho, lam, lam + mu), (k, l, m, lam, lam + mu, rho, sigma + rho),
      (k, l, m, rho, sigma + rho, lam, lam - mu), (k, l, m, lam, lam - mu, rho, sigma + rho)}"

text \<open>A configuration \<open>LB = 1\<close>, \<open>LE = 0\<close> with a table \<open>W\<close> that holds 1 everywhere.\<close>

definition ex_angular :: AngularIntegral where
  "ex_angular = AngularIntegral_init
     \<lparr>ang_LB = 0, ang_LE = 0, ang_wDim = 0, ang_maxL = 0,
      ang_W = \<lparr>dims5 = [5, 5, 5, 3, 6], data5 = \<lparr>nrows = 25, ncols = 90, cells = (\<lambda>_. 1)\<rparr>\<rparr>,
      ang_omega = SevenIndex_new 0 0 0 0 0 0 0\<rparr> 1 0"

section \<open>Angular integrals: \<open>AngularIntegral::compute\<close>\<close>

text \<open>\<open>double AngularIntegral::calcG(int l, int m, std::vector<double> &fac) const\<close>\<close>

definition calcG :: "int \<Rightarrow> int \<Rightarrow> real list \<Rightarrow> real option" where
  "calcG l m fac =
     do { fac_l \<leftarrow> vec_at fac l;
          let value1 = 2 powi l * fac_l;
          let value1 = 1 / value1;
          fac_lm \<leftarrow> vec_at fac (l - m);
          fac_lpm \<leftarrow> vec_at fac (l + m);
          let value2 = (2 * real_of_int l + 1) * fac_lm / (2 * pi * fac_lpm);
          let value2 = sqrt value2;
          Some (value1 * value2) }"

text \<open>\<open>double AngularIntegral::calcH1(int i, int j, int l, int m, std::vector<double> &fac) const\<close>\<close>

definition calcH1 :: "int \<Rightarrow> int \<Rightarrow> int \<Rightarrow> int \<Rightarrow> real list \<Rightarrow> real option" where
  "calcH1 i j l m fac =
     (if j > - 1
      then do { fac_l \<leftarrow> vec_at fac l;
                fac_j \<leftarrow> vec_at fac j;
                fac_li \<leftarrow> vec_at fac (l - i);
                fac_ij \<leftarrow> vec_at fac (i - j);
                let value = fac_l / (fac_j * fac_li * fac_ij);
                fac_2li \<leftarrow> vec_at fac (2 * (l - i));
                fac_lm2i \<leftarrow> vec_at fac (l - m - 2 * i);
                Some (value * (real_of_int (1 - 2 * c_mod i 2) * fac_2li / fac_lm2i)) }
      else Some 0)"

text \<open>\<open>double AngularIntegral::calcH2(int i, int j, int k, int m, std::vector<double> &fac) const\<close>\<close>

definition calcH2 :: "int \<Rightarrow> int \<Rightarrow> int \<Rightarrow> int \<Rightarrow> real list \<Rightarrow> real option" where
  "calcH2 i j k m fac =
     (let ki2 = k - 2 * i
      in if m \<ge> ki2 \<and> ki2 \<ge> 0
         then do { fac_j \<leftarrow> vec_at fac j;
                   fac_m \<leftarrow> vec_at fac m;
                   fac_i \<leftarrow> vec_at fac i;
                   fac_ji \<leftarrow> vec_at fac (j - i);
                   fac_ki2 \<leftarrow> vec_at fac ki2;
                   fac_mki2 \<leftarrow> vec_at fac (m - ki2);
                   let value = fac_j * fac_m / (fac_i * fac_ji * fac_ki2 * fac_mki2);
                   let p = c_div (m - k + 2 * i) 2;
                   Some (value * (1 - 2 * real_of_int (c_mod p 2))) }
         else Some 0)"

text \<open>
  \<open>ThreeIndex AngularIntegral::uklm(int lam, int mu, std::vector<double> &fac) const\<close>.
  \<open>uklm_entry\<close> is the body of the two loops over \<open>k\<close> and \<open>l\<close> up to the two stores: it
  gives the pair \<open>(u, um)\<close>.
\<close>

definition uklm_entry :: "int \<Rightarrow> int \<Rightarrow> real list \<Rightarrow> real \<Rightarrow> int \<Rightarrow> int \<Rightarrow> (real \<times> real) option" where
  "uklm_entry lam mu fac g k l =
     (let or2 = 1 / sqrt 2;
          j = k + l - mu
      in if c_mod j 2 = 0
         then do { let j = c_div j 2;
                   u1 \<leftarrow> foldl_option (\<lambda>u1 i. do { h \<leftarrow> calcH1 i j lam mu fac; Some (u1 + h) })
                          0 [j..c_div (lam - mu) 2];
                   let u = g * u1;
                   u1 \<leftarrow> foldl_option (\<lambda>u1 i. do { h \<leftarrow> calcH2 i j k mu fac; Some (u1 + h) })
                          0 [0..j];
                   let u = u * u1;
                   let um = u;
                   let j = c_mod l 2;
                   let u = u * real_of_int (1 - j);
                   let um = um * real_of_int j;
                   Some (if mu = 0 then (u * or2, u * or2) else (u, um)) }
         else Some (0, 0))"

definition uklm :: "int \<Rightarrow> int \<Rightarrow> real list \<Rightarrow> ThreeIndex option" where
  "uklm lam mu fac =
     do { let values = ThreeIndex_new (lam + 1) (lam + 1) 2;
          g \<leftarrow> calcG lam mu fac;
          foldl_option (\<lambda>values k.
              foldl_option (\<lambda>values l.
                  do { uum \<leftarrow> uklm_entry lam mu fac g k l;
                       let values = ThreeIndex_set values k l 0 (fst uum);
                       Some (ThreeIndex_set values k l 1 (snd uum)) })
                values [0..lam - k])
            values [0..lam] }"

text \<open>
  \<open>FiveIndex AngularIntegral::makeU(std::vector<double> &fac)\<close>. \<open>makeU_copy\<close> is the pair
  of loops over \<open>i\<close> and \<open>j\<close> that copies the table of \<open>uklm\<close>.
\<close>

definition makeU_copy :: "int \<Rightarrow> int \<Rightarrow> ThreeIndex \<Rightarrow> FiveIndex \<Rightarrow> FiveIndex" where
  "makeU_copy lam mu Uij values =
     foldl (\<lambda>values i.
         foldl (\<lambda>values j.
             (let values = FiveIndex_set values lam mu i j 0 (ThreeIndex_get Uij i j 0)
              in FiveIndex_set values lam mu i j 1 (ThreeIndex_get Uij i j 1)))
           values [0..lam])
       values [0..lam]"

definition makeU :: "AngularIntegral \<Rightarrow> real list \<Rightarrow> FiveIndex option" where
  "makeU A fac =
     (let dim = ang_maxL A + 1;
          values = FiveIndex_new dim dim dim dim 2
      in foldl_option (\<lambda>values lam.
             foldl_option (\<lambda>values mu.
                 do { Uij \<leftarrow> uklm lam mu fac;
                      Some (makeU_copy lam mu Uij values) })
               values [0..lam])
           values [0..ang_maxL A])"

text \<open>
  \<open>void AngularIntegral::makeW(std::vector<double> &fac, FiveIndex &U)\<close>, innermost loops
  first. The \<open>double\<close> \<open>smu\<close> holds 1 or -1 and is an integer here, so that \<open>(int)(smu)\<close> is
  \<open>smu\<close> and \<open>(int)(smu*mu)\<close> is \<open>smu * mu\<close>; \<open>std::sort\<close> puts the three entries of \<open>ix\<close> in
  increasing order.
\<close>

definition makeW_sum ::
  "FiveIndex \<Rightarrow> ThreeIndex \<Rightarrow> int \<Rightarrow> int \<Rightarrow> int \<Rightarrow> int \<Rightarrow> int \<Rightarrow> int \<Rightarrow> real" where
  "makeW_sum U pijk k l m lam mu smu =
     foldl (\<lambda>w i.
         foldl (\<lambda>w j.
             (let ix = [k + i, l + j, m + lam - i - j]
              in if c_mod (ix ! 0) 2 + c_mod (ix ! 1) 2 + c_mod (ix ! 2) 2 = 0
                 then (let ix = sort ix
                       in w + FiveIndex_get U lam mu i j (c_div (1 - smu) 2)
                              * ThreeIndex_get pijk (c_div (ix ! 2) 2) (c_div (ix ! 1) 2)
                                  (c_div (ix ! 0) 2))
                 else w))
           w [0..lam - i])
       0 [0..lam]"

definition makeW_lam ::
  "FiveIndex \<Rightarrow> ThreeIndex \<Rightarrow> int \<Rightarrow> int \<Rightarrow> int \<Rightarrow> FiveIndex \<Rightarrow> int \<Rightarrow> FiveIndex" where
  "makeW_lam U pijk k l m values lam =
     (let smu = 1 - 2 * c_mod l 2;
          pmu = c_mod (k + l) 2
      in foldl (\<lambda>values mu.
                  FiveIndex_set values k l m lam (lam + smu * mu)
                    (makeW_sum U pijk k l m lam mu smu))
           values (range2 pmu lam))"

definition makeW_m ::
  "FiveIndex \<Rightarrow> ThreeIndex \<Rightarrow> int \<Rightarrow> int \<Rightarrow> int \<Rightarrow> FiveIndex \<Rightarrow> int \<Rightarrow> FiveIndex" where
  "makeW_m U pijk maxLam k l values m =
     (let plam = c_mod (k + l + m) 2;
          limit = (if maxLam > k + l + m then k + l + m else maxLam)
      in foldl (makeW_lam U pijk k l m) values (range2 plam limit))"

definition makeW :: "AngularIntegral \<Rightarrow> real list \<Rightarrow> FiveIndex \<Rightarrow> AngularIntegral" where
  "makeW A fac U =
     (let dim = ang_wDim A;
          maxI = c_div (ang_maxL A + dim) 2;
          maxLam = ang_maxL A;
          values = FiveIndex_new (dim + 1) (dim + 1) (dim + 1) (maxLam + 1) (2 * (maxLam + 1));
          pijk = Pijk maxI;
          values = foldl (\<lambda>values k.
                      foldl (\<lambda>values l.
                          foldl (makeW_m U pijk maxLam k l) values [0..dim])
                        values [0..dim])
                     values [0..dim]
      in A\<lparr>ang_W := values\<rparr>)"

text \<open>
  \<open>void AngularIntegral::compute()\<close>. The result is the object with its tables \<open>W\<close> and
  \<open>omega\<close> filled, or \<open>None\<close> when the run reads outside the factorial table.
\<close>

definition AngularIntegral_compute :: "AngularIntegral \<Rightarrow> AngularIntegral option" where
  "AngularIntegral_compute A =
     (let fac = facArray (ang_wDim A)
      in do { U \<leftarrow> makeU A fac;
              let A = makeW A fac U;
              Some (makeOmega A U) })"

text \<open>
  The extents of the Omega table of a configuration \<open>(LB, LE)\<close> are within the range of
  the index arithmetic.
\<close>

definition Omega_fits :: "int \<Rightarrow> int \<Rightarrow> bool" where
  "Omega_fits LB LE =
     ((LB + 1) * (LB + 1) * (LB + 1) < 2 ^ 31 \<and>
      (LB + LE + 1) * (2 * (LB + LE) + 2) * (LB + LE + 1) * (2 * (LB + LE) + 2) < 2 ^ 31)"

text \<open>An object as its default constructor leaves it, before \<open>init\<close>.\<close>

definition ex_blank :: AngularIntegral where
  "ex_blank = \<lparr>ang_LB = 0, ang_LE = 0, ang_wDim = 0, ang_maxL = 0,
               ang_W = \<lparr>dims5 = [0, 0, 0, 0, 0], data5 = Matrix_resize 0 0\<rparr>,
               ang_omega = \<lparr>dims7 = [0, 0, 0, 0, 0, 0, 0], data7 = Matrix_resize 0 0\<rparr>\<rparr>"

section \<open>ECP integrals: \<open>ECPIntegral::type1\<close>\<close>

text \<open>\<open>double ECPIntegral::calcC(int a, int m, double A, std::vector<double> &fac) const\<close>\<close>

definition calcC :: "int \<Rightarrow> int \<Rightarrow> real \<Rightarrow> real list \<Rightarrow> real" where
  "calcC a m A fac =
     (let value = 1 - real_of_int (2 * c_mod (a - m) 2);
          value = value * A powi (a - m);
          value = value * (fac ! nat a / (fac ! nat m * fac ! nat (a - m)))
      in value)"

text \<open>
  \<open>double AngularIntegral::getIntegral(int k, int l, int m, int lam, int mu) const\<close>, the
  lookup in the table \<open>W\<close>.
\<close>

definition getIntegral5 :: "AngularIntegral \<Rightarrow> int \<Rightarrow> int \<Rightarrow> int \<Rightarrow> int \<Rightarrow> int \<Rightarrow> real" where
  "getIntegral5 A k l m lam mu = FiveIndex_get (ang_W A) k l m lam (lam + mu)"

text \<open>
  What the contraction loops of \<open>type1\<close> read and do not change: the angular tables, the
  cache \<open>radials\<close> of radial integrals, the factorials and the unpacked centres.
\<close>

record type1_env =
  env_angInts :: AngularIntegral
  env_radials :: ThreeIndex
  env_fac :: "real list"
  env_Ax :: real
  env_Ay :: real
  env_Az :: real
  env_Bx :: real
  env_By :: real
  env_Bz :: real

text \<open>The statement of the loop over \<open>mu\<close>: \<open>values(na, nb) += C * \<dots>\<close>.\<close>

definition type1_mu ::
  "type1_env \<Rightarrow> int \<Rightarrow> int \<Rightarrow> real \<Rightarrow> int \<Rightarrow> int \<Rightarrow> int \<Rightarrow> int \<Rightarrow> int \<Rightarrow> int \<Rightarrow> Matrix \<Rightarrow> int
     \<Rightarrow> Matrix" where
  "type1_mu E na nb C k l m ix msign lam values mu =
     Matrix_set values na nb
       (Matrix_get values na nb
          + C * getIntegral5 (env_angInts E) k l m lam (msign * mu)
              * ThreeIndex_get (env_radials E) ix lam (lam + msign * mu))"

text \<open>The block guarded by \<open>if ( fabs(C) > 1e-14 )\<close>, with its loops over \<open>lam\<close> and \<open>mu\<close>.\<close>

definition type1_term ::
  "type1_env \<Rightarrow> int \<Rightarrow> int \<Rightarrow> real \<Rightarrow> int \<Rightarrow> int \<Rightarrow> int \<Rightarrow> Matrix \<Rightarrow> Matrix" where
  "type1_term E na nb C k l m values =
     (if \<bar>C\<bar> > 1 / 10 ^ 14
      then (let ix = k + l + m;
                lparity = c_mod ix 2;
                msign = 1 - 2 * c_mod l 2;
                mparity = c_mod (lparity + m) 2
            in foldl (\<lambda>values lam.
                   foldl (type1_mu E na nb C k l m ix msign lam) values (range2 mparity lam))
                 values (range2 lparity ix))
      else values)"

text \<open>The six loops over \<open>m2\<close>, \<open>m1\<close>, \<open>l2\<close>, \<open>l1\<close>, \<open>k2\<close> and \<open>k1\<close>, innermost first.\<close>

definition type1_m2 ::
  "type1_env \<Rightarrow> int \<Rightarrow> int \<Rightarrow> int \<Rightarrow> real \<Rightarrow> real \<Rightarrow> real \<Rightarrow> real \<Rightarrow> real \<Rightarrow> int \<Rightarrow> int \<Rightarrow> int
     \<Rightarrow> Matrix \<Rightarrow> int \<Rightarrow> Matrix" where
  "type1_m2 E na nb z2 Ck1 Ck2 Cl1 Cl2 Cm1 k l m1 values m2 =
     (let Cm2 = calcC z2 m2 (env_Bz E) (env_fac E);
          m = m1 + m2;
          C = Ck1 * Cl1 * Cm1 * Ck2 * Cl2 * Cm2
      in type1_term E na nb C k l m values)"

definition type1_m1 ::
  "type1_env \<Rightarrow> int \<Rightarrow> int \<Rightarrow> int \<Rightarrow> int \<Rightarrow> real \<Rightarrow> real \<Rightarrow> real \<Rightarrow> real \<Rightarrow> int \<Rightarrow> int
     \<Rightarrow> Matrix \<Rightarrow> int \<Rightarrow> Matrix" where
  "type1_m1 E na nb z1 z2 Ck1 Ck2 Cl1 Cl2 k l values m1 =
     (let Cm1 = calcC z1 m1 (env_Az E) (env_fac E)
      in foldl (type1_m2 E na nb z2 Ck1 Ck2 Cl1 Cl2 Cm1 k l m1) values [0..z2])"

definition type1_l2 ::
  "type1_env \<Rightarrow> int \<Rightarrow> int \<Rightarrow> int \<Rightarrow> int \<Rightarrow> int \<Rightarrow> real \<Rightarrow> real \<Rightarrow> real \<Rightarrow> int \<Rightarrow> int
     \<Rightarrow> Matrix \<Rightarrow> int \<Rightarrow> Matrix" where
  "type1_l2 E na nb y2 z1 z2 Ck1 Ck2 Cl1 k l1 values l2 =
     (let Cl2 = calcC y2 l2 (env_By E) (env_fac E);
          l = l1 + l2
      in foldl (type1_m1 E na nb z1 z2 Ck1 Ck2 Cl1 Cl2 k l) values [0..z1])"

definition type1_l1 ::
  "type1_env \<Rightarrow> int \<Rightarrow> int \<Rightarrow> int \<Rightarrow> int \<Rightarrow> int \<Rightarrow> int \<Rightarrow> real \<Rightarrow> real \<Rightarrow> int
     \<Rightarrow> Matrix \<Rightarrow> int \<Rightarrow> Matrix" where
  "type1_l1 E na nb y1 y2 z1 z2 Ck1 Ck2 k values l1 =
     (let Cl1 = calcC y1 l1 (env_Ay E) (env_fac E)
      in foldl (type1_l2 E na nb y2 z1 z2 Ck1 Ck2 Cl1 k l1) values [0..y2])"

definition type1_k2 ::
  "type1_env \<Rightarrow> int \<Rightarrow> int \<Rightarrow> int \<Rightarrow> int \<Rightarrow> int \<Rightarrow> int \<Rightarrow> int \<Rightarrow> real \<Rightarrow> int
     \<Rightarrow> Matrix \<Rightarrow> int \<Rightarrow> Matrix" where
  "type1_k2 E na nb x2 y1 y2 z1 z2 Ck1 k1 values k2 =
     (let Ck2 = calcC x2 k2 (env_Bx E) (env_fac E);
          k = k1 + k2
      in foldl (type1_l1 E na nb y1 y2 z1 z2 Ck1 Ck2 k) values [0..y1])"

definition type1_k1 ::
  "type1_env \<Rightarrow> int \<Rightarrow> int \<Rightarrow> int \<Rightarrow> int \<Rightarrow> int \<Rightarrow> int \<Rightarrow> int \<Rightarrow> int
     \<Rightarrow> Matrix \<Rightarrow> int \<Rightarrow> Matrix" where
  "type1_k1 E na nb x1 x2 y1 y2 z1 z2 values k1 =
     (let Ck1 = calcC x1 k1 (env_Ax E) (env_fac E)
      in foldl (type1_k2 E na nb x2 y1 y2 z1 z2 Ck1 k1) values [0..x2])"

text \<open>
  The four loops over the Cartesian components, which own the output matrix and the two
  counters \<open>na\<close> and \<open>nb\<close>.
\<close>

record type1_state =
  t1_values :: Matrix
  t1_na :: int
  t1_nb :: int

definition type1_y2 ::
  "type1_env \<Rightarrow> int \<Rightarrow> int \<Rightarrow> int \<Rightarrow> int \<Rightarrow> int \<Rightarrow> type1_state \<Rightarrow> int \<Rightarrow> type1_state" where
  "type1_y2 E LB x1 y1 z1 x2 s y2 =
     (let z2 = LB - x2 - y2;
          values = foldl (type1_k1 E (t1_na s) (t1_nb s) x1 x2 y1 y2 z1 z2) (t1_values s) [0..x1];
          values = Matrix_set values (t1_na s) (t1_nb s)
                     (Matrix_get values (t1_na s) (t1_nb s) * (4 * pi))
      in s\<lparr>t1_values := values, t1_nb := t1_nb s + 1\<rparr>)"

definition type1_x2 ::
  "type1_env \<Rightarrow> int \<Rightarrow> int \<Rightarrow> int \<Rightarrow> int \<Rightarrow> type1_state \<Rightarrow> int \<Rightarrow> type1_state" where
  "type1_x2 E LB x1 y1 z1 s x2 = foldl (type1_y2 E LB x1 y1 z1 x2) s [0..LB - x2]"

definition type1_y1 ::
  "type1_env \<Rightarrow> int \<Rightarrow> int \<Rightarrow> int \<Rightarrow> type1_state \<Rightarrow> int \<Rightarrow> type1_state" where
  "type1_y1 E LA LB x1 s y1 =
     (let z1 = LA - x1 - y1;
          s = s\<lparr>t1_nb := 0\<rparr>;
          s = foldl (type1_x2 E LB x1 y1 z1) s [0..LB]
      in s\<lparr>t1_na := t1_na s + 1\<rparr>)"

definition type1_x1 :: "type1_env \<Rightarrow> int \<Rightarrow> int \<Rightarrow> type1_state \<Rightarrow> int \<Rightarrow> type1_state" where
  "type1_x1 E LA LB s x1 = foldl (type1_y1 E LA LB x1) s [0..LA - x1]"

text \<open>\<open>values.assign(rows, cols, value)\<close> of the matrix class.\<close>

definition Matrix_assign :: "int \<Rightarrow> int \<Rightarrow> real \<Rightarrow> Matrix" where
  "Matrix_assign r c v = \<lparr>nrows = r, ncols = c, cells = (\<lambda>_. v)\<rparr>"

text \<open>
  The second half of \<open>ECPIntegral::type1\<close>, from \<open>values.assign\<close> on: \<open>LA\<close> and \<open>LB\<close> are
  the angular momenta \<open>shellA.am()\<close> and \<open>shellB.am()\<close>, \<open>ncartA\<close> and \<open>ncartB\<close> the counts
  \<open>ncartesian()\<close> of the two shells (the class \<open>GaussianShell\<close> is not among the sources).
  The first half fills the tables of the environment.
\<close>

definition type1_contract :: "type1_env \<Rightarrow> int \<Rightarrow> int \<Rightarrow> int \<Rightarrow> int \<Rightarrow> Matrix" where
  "type1_contract E LA LB ncartA ncartB =
     t1_values (foldl (type1_x1 E LA LB)
       \<lparr>t1_values = Matrix_assign ncartA ncartB 0, t1_na = 0, t1_nb = 0\<rparr> [0..LA])"

text \<open>
  The statement to compare with. The Cartesian components \<open>(x, y, z)\<close> of a shell of
  angular momentum \<open>L\<close> in the order in which the loops number them; the pairs
  \<open>(\<lambda>, \<mu>)\<close> that go with a combined index \<open>(k, l, m)\<close>: \<open>\<lambda>\<close> runs up to \<open>k + l + m\<close> with the
  parity of \<open>k + l + m\<close>, \<open>\<mu>\<close> has magnitude at most \<open>\<lambda>\<close>, the parity of \<open>k + l\<close> (that of
  \<open>k + l + m\<close> shifted by \<open>m\<close>) and the sign \<open>(-1)\<^sup>l\<close>; the contribution of one tuple
  \<open>(k1, k2, l1, l2, m1, m2)\<close> with combined coefficient \<open>C\<close>; the sum of a function of
  \<open>C\<close> and the combined index over all tuples bounded by the powers of two components;
  and the sum the claim gives for one entry of the matrix.
\<close>

definition cartesian_components :: "int \<Rightarrow> (int \<times> int \<times> int) list" where
  "cartesian_components L = concat (map (\<lambda>x. map (\<lambda>y. (x, y, L - x - y)) [0..L - x]) [0..L])"

definition type1_pairs :: "int \<Rightarrow> int \<Rightarrow> int \<Rightarrow> (int \<times> int) set" where
  "type1_pairs k l m =
     {(lam, mu). 0 \<le> lam \<and> lam \<le> k + l + m \<and> even (k + l + m - lam) \<and>
        \<bar>mu\<bar> \<le> lam \<and> even (k + l - mu) \<and> (if even l then 0 \<le> mu else mu \<le> 0)}"

definition type1_tuple :: "type1_env \<Rightarrow> real \<Rightarrow> int \<Rightarrow> int \<Rightarrow> int \<Rightarrow> real" where
  "type1_tuple E C k l m =
     (if \<bar>C\<bar> > 1 / 10 ^ 14
      then \<Sum>(lam, mu)\<in>type1_pairs k l m.
             C * getIntegral5 (env_angInts E) k l m lam mu
               * ThreeIndex_get (env_radials E) (k + l + m) lam (lam + mu)
      else 0)"

definition type1_tuples_sum ::
  "type1_env \<Rightarrow> int \<times> int \<times> int \<Rightarrow> int \<times> int \<times> int \<Rightarrow> (real \<Rightarrow> int \<Rightarrow> int \<Rightarrow> int \<Rightarrow> real) \<Rightarrow> real" where
  "type1_tuples_sum E a b f =
     (case a of (x1, y1, z1) \<Rightarrow> case b of (x2, y2, z2) \<Rightarrow>
      (\<Sum>k1 = 0..x1. \<Sum>k2 = 0..x2. \<Sum>l1 = 0..y1. \<Sum>l2 = 0..y2. \<Sum>m1 = 0..z1. \<Sum>m2 = 0..z2.
         f (calcC x1 k1 (env_Ax E) (env_fac E) * calcC y1 l1 (env_Ay E) (env_fac E)
              * calcC z1 m1 (env_Az E) (env_fac E) * calcC x2 k2 (env_Bx E) (env_fac E)
              * calcC y2 l2 (env_By E) (env_fac E) * calcC z2 m2 (env_Bz E) (env_fac E))
           (k1 + k2) (l1 + l2) (m1 + m2)))"

definition type1_entry :: "type1_env \<Rightarrow> int \<times> int \<times> int \<Rightarrow> int \<times> int \<times> int \<Rightarrow> real" where
  "type1_entry E a b = 4 * pi * type1_tuples_sum E a b (type1_tuple E)"

text \<open>
  The contraction with the pruning disabled, to compare with: every tuple contributes,
  whatever its coefficient. \<open>type1_skipped\<close> is the contribution of a tuple that the
  pruning skips, and \<open>type1_skipped_weight\<close> the sum of the magnitudes of its products of
  angular lookup and cached radial integral.
\<close>

definition type1_tuple_unpruned :: "type1_env \<Rightarrow> real \<Rightarrow> int \<Rightarrow> int \<Rightarrow> int \<Rightarrow> real" where
  "type1_tuple_unpruned E C k l m =
     (\<Sum>(lam, mu)\<in>type1_pairs k l m.
        C * getIntegral5 (env_angInts E) k l m lam mu
          * ThreeIndex_get (env_radials E) (k + l + m) lam (lam + mu))"

definition type1_entry_unpruned ::
  "type1_env \<Rightarrow> int \<times> int \<times> int \<Rightarrow> int \<times> int \<times> int \<Rightarrow> real" where
  "type1_entry_unpruned E a b = 4 * pi * type1_tuples_sum E a b (type1_tuple_unpruned E)"

definition type1_skipped :: "type1_env \<Rightarrow> real \<Rightarrow> int \<Rightarrow> int \<Rightarrow> int \<Rightarrow> real" where
  "type1_skipped E C k l m = (if \<bar>C\<bar> > 1 / 10 ^ 14 then 0 else type1_tuple_unpruned E C k l m)"

definition type1_skipped_weight :: "type1_env \<Rightarrow> real \<Rightarrow> int \<Rightarrow> int \<Rightarrow> int \<Rightarrow> real" where
  "type1_skipped_weight E C k l m =
     (if \<bar>C\<bar> > 1 / 10 ^ 14 then 0
      else \<Sum>(lam, mu)\<in>type1_pairs k l m.
             \<bar>getIntegral5 (env_angInts E) k l m lam mu
                * ThreeIndex_get (env_radials E) (k + l + m) lam (lam + mu)\<bar>)"

text \<open>For the proofs: \<open>M(r, c) += v\<close> on a matrix.\<close>

definition Matrix_add_to :: "Matrix \<Rightarrow> int \<Rightarrow> int \<Rightarrow> real \<Rightarrow> Matrix" where
  "Matrix_add_to M r c v = Matrix_set M r c (Matrix_get M r c + v)"

text \<open>
  For the proofs: what the four component loops do for one component \<open>b\<close> of shell B, and
  for one component \<open>a\<close> of shell A, in terms of \<open>type1_entry\<close>.
\<close>

definition type1_block ::
  "type1_env \<Rightarrow> int \<times> int \<times> int \<Rightarrow> type1_state \<Rightarrow> int \<times> int \<times> int \<Rightarrow> type1_state" where
  "type1_block E a s b =
     s\<lparr>t1_values := (t1_values s)\<lparr>cells := (cells (t1_values s))((t1_na s, t1_nb s) :=
          type1_entry E a b + cells (t1_values s) (t1_na s, t1_nb s) * (4 * pi))\<rparr>,
       t1_nb := t1_nb s + 1\<rparr>"

definition type1_row :: "type1_env \<Rightarrow> int \<Rightarrow> type1_state \<Rightarrow> int \<times> int \<times> int \<Rightarrow> type1_state" where
  "type1_row E LB s a =
     (foldl (type1_block E a) (s\<lparr>t1_nb := 0\<rparr>) (cartesian_components LB))
       \<lparr>t1_na := t1_na s + 1\<rparr>"

text \<open>
  An environment for a p shell at \<open>(2, 0, 0)\<close> and an s shell at the origin, with an
  angular table and a radial cache that hold 1 everywhere.
\<close>

definition ex_env :: type1_env where
  "ex_env = \<lparr>env_angInts = ex_angular,
             env_radials = \<lparr>dims3 = [2, 2, 3], data3 = \<lparr>nrows = 2, ncols = 6, cells = (\<lambda>_. 1)\<rparr>\<rparr>,
             env_fac = facArray 1,
             env_Ax = 2, env_Ay = 0, env_Az = 0, env_Bx = 0, env_By = 0, env_Bz = 0\<rparr>"

text \<open>
  The same two shells with the p shell at \<open>(1e-15, 0, 0)\<close>, next to the axis through the
  origin, and a radial cache that holds \<open>1e15\<close> at \<open>(0, 0, 0)\<close> and 1 elsewhere.
\<close>

definition ex_env_near_axis :: type1_env where
  "ex_env_near_axis =
     \<lparr>env_angInts = ex_angular,
      env_radials = \<lparr>dims3 = [2, 2, 3],
                     data3 = \<lparr>nrows = 2, ncols = 6,
                              cells = (\<lambda>rc. if rc = (0, 0) then 10 ^ 15 else 1)\<rparr>\<rparr>,
      env_fac = facArray 1,
      env_Ax = 1 / 10 ^ 15, env_Ay = 0, env_Az = 0, env_Bx = 0, env_By = 0, env_Bz = 0\<rparr>"

section \<open>Radial integrals: the direction of a primitive pair in \<open>RadialIntegral::type1\<close>\<close>

text \<open>
  Division is the one operation of this part that can go wrong, so it is made explicit:
  \<open>checked_div\<close> is \<open>None\<close> when the divisor is zero, and a computation that divides is
  \<open>None\<close> as soon as one of its divisions is.
\<close>

definition checked_div :: "real \<Rightarrow> real \<Rightarrow> real option" where
  "checked_div a b = (if b = 0 then None else Some (a / b))"

text \<open>\<open>static std::vector<double> dfacArray(int l)\<close>\<close>

definition dfacArray :: "int \<Rightarrow> real list" where
  "dfacArray l =
     (let values = replicate (nat (l + 1)) 0
      in if l > - 1
         then (let values = values[0 := 1]
               in if l > 0
                  then foldl (\<lambda>values i. values[nat i := values ! nat (i - 2) * real_of_int i])
                         (values[1 := 1]) [2..l]
                  else values)
         else values)"

text \<open>
  One pass of the two loops of \<open>RadialIntegral::buildParameters\<close>, for the primitive pair
  with exponents \<open>zetaA\<close> and \<open>zetaB\<close>: the entries \<open>p(a, b)\<close>, \<open>P(a, b)\<close>, \<open>P2(a, b)\<close> and
  \<open>K(a, b)\<close>, with \<open>calcKij(1.0, 1.0, zetaA, zetaB, A, B)\<close> written out. Centres are lists of
  three coordinates.
\<close>

record pair_parameters =
  pp_p :: real
  pp_P :: real
  pp_P2 :: real
  pp_K :: real

definition calcKij :: "real \<Rightarrow> real \<Rightarrow> real \<Rightarrow> real \<Rightarrow> real list \<Rightarrow> real list \<Rightarrow> real option" where
  "calcKij Na Nb zeta_a zeta_b A B =
     Option.bind (checked_div (zeta_a * zeta_b) (zeta_a + zeta_b)) (\<lambda>muij.
       (let R = [A ! 0 - B ! 0, A ! 1 - B ! 1, A ! 2 - B ! 2];
            R2 = R ! 0 * R ! 0 + R ! 1 * R ! 1 + R ! 2 * R ! 2
        in Some (Na * Nb * exp (- muij * R2))))"

definition buildParameters_pair ::
  "real \<Rightarrow> real \<Rightarrow> real list \<Rightarrow> real list \<Rightarrow> pair_parameters option" where
  "buildParameters_pair zetaA zetaB A B =
     (let p = zetaA + zetaB
      in Option.bind (checked_div (zetaA * A ! 0 + zetaB * B ! 0) p) (\<lambda>Pvec0.
         Option.bind (checked_div (zetaA * A ! 1 + zetaB * B ! 1) p) (\<lambda>Pvec1.
         Option.bind (checked_div (zetaA * A ! 2 + zetaB * B ! 2) p) (\<lambda>Pvec2.
           (let P2 = Pvec0 * Pvec0 + Pvec1 * Pvec1 + Pvec2 * Pvec2;
                P = sqrt P2
            in Option.bind (calcKij 1 1 zetaA zetaB A B) (\<lambda>K.
                 Some \<lparr>pp_p = p, pp_P = P, pp_P2 = P2, pp_K = K\<rparr>))))))"

text \<open>
  The lines of \<open>type1\<close> under the comment ``Calculate real spherical harmonic'': the cosine
  \<open>x\<close> of the polar angle and the two arguments \<open>Py\<close>, \<open>Px\<close> of \<open>atan2\<close>.
\<close>

definition type1_direction ::
  "real \<Rightarrow> real \<Rightarrow> real list \<Rightarrow> real list \<Rightarrow> pair_parameters \<Rightarrow> (real \<times> real \<times> real) option" where
  "type1_direction za zb Avec Bvec pp =
     Option.bind (if \<bar>pp_P pp\<bar> < 1 / 10 ^ 12 then Some 0
                  else checked_div (za * Avec ! 2 + zb * Bvec ! 2) (pp_p pp * pp_P pp)) (\<lambda>x.
     Option.bind (checked_div (za * Avec ! 1 + zb * Bvec ! 1) (pp_p pp)) (\<lambda>Py.
     Option.bind (checked_div (za * Avec ! 0 + zb * Bvec ! 0) (pp_p pp)) (\<lambda>Px.
       Some (x, Py, Px))))"

text \<open>
  \<open>static Matrix realSphericalHarmonics(int lmax, double x, double phi, fac, dfac)\<close>.
  The local array \<open>Plm\<close> is a function of its two indices, with the content \<open>Plm0\<close>
  before anything is stored. The state of the loops is the pair of \<open>ox2m\<close> and \<open>Plm\<close>, then
  the triple of \<open>sign\<close>, \<open>ox2m\<close> and the result matrix.
\<close>

definition rsh_Pmm :: "real \<Rightarrow> real list \<Rightarrow> real \<times> (int \<times> int \<Rightarrow> real) \<Rightarrow> int
    \<Rightarrow> real \<times> (int \<times> int \<Rightarrow> real)" where
  "rsh_Pmm sox2 dfac s m =
     (let ox2m = fst s * (- sox2)
      in (ox2m, (snd s)((m, m) := ox2m * dfac ! nat (2 * m - 1))))"

definition rsh_Plm_m :: "int \<Rightarrow> real \<Rightarrow> (int \<times> int \<Rightarrow> real) option \<Rightarrow> int
    \<Rightarrow> (int \<times> int \<Rightarrow> real) option" where
  "rsh_Plm_m l ox2m s m =
     Option.bind s (\<lambda>Plm.
       (let v = ox2m * Plm (l - 1, m) - real_of_int (l + m - 1) * Plm (l - 2, m)
        in Option.bind (checked_div v (real_of_int (l - m))) (\<lambda>v. Some (Plm((l, m) := v)))))"

definition rsh_Plm_l :: "real \<Rightarrow> (int \<times> int \<Rightarrow> real) option \<Rightarrow> int \<Rightarrow> (int \<times> int \<Rightarrow> real) option" where
  "rsh_Plm_l x s l =
     (let ox2m = x * real_of_int (2 * l - 1)
      in Option.bind (foldl (rsh_Plm_m l ox2m) s [0..l - 1]) (\<lambda>Plm.
           Some (Plm((l - 1, l) := 0))))"

definition rsh_Slm_m :: "real \<Rightarrow> real \<Rightarrow> real list \<Rightarrow> (int \<times> int \<Rightarrow> real) \<Rightarrow> int
    \<Rightarrow> (real \<times> Matrix) option \<Rightarrow> int \<Rightarrow> (real \<times> Matrix) option" where
  "rsh_Slm_m osq4pi phi fac Plm l s m =
     Option.bind s (\<lambda>(sign, rshValues).
       Option.bind (checked_div ((2 * real_of_int l + 1) * fac ! nat (l - m)) (fac ! nat (l + m)))
         (\<lambda>ox2m.
           (let ox2m = sign * osq4pi * sqrt (2 * ox2m) * Plm (l, m);
                rshValues = Matrix_set rshValues l (l + m) (ox2m * cos (real_of_int m * phi));
                rshValues = Matrix_set rshValues l (l - m) (ox2m * sin (real_of_int m * phi))
            in Some (sign * (- 1), rshValues))))"

definition rsh_Slm_l :: "real \<Rightarrow> real \<Rightarrow> real list \<Rightarrow> (int \<times> int \<Rightarrow> real)
    \<Rightarrow> Matrix option \<Rightarrow> int \<Rightarrow> Matrix option" where
  "rsh_Slm_l osq4pi phi fac Plm s l =
     Option.bind s (\<lambda>rshValues.
       (let rshValues = Matrix_set rshValues l l
                          (osq4pi * sqrt (2 * real_of_int l + 1) * Plm (l, 0))
        in map_option snd
             (foldl (rsh_Slm_m osq4pi phi fac Plm l) (Some (- 1, rshValues)) [1..l])))"

definition realSphericalHarmonics ::
  "(int \<times> int \<Rightarrow> real) \<Rightarrow> int \<Rightarrow> real \<Rightarrow> real \<Rightarrow> real list \<Rightarrow> real list \<Rightarrow> Matrix option" where
  "realSphericalHarmonics Plm0 lmax x phi fac dfac =
     (let rshValues = Matrix_assign (lmax + 1) (2 * lmax + 1) 0
      in if lmax > 0
         then (let x2 = x * x;
                   Plm = Plm0((0, 0) := 1);
                   sox2 = sqrt (1 - x2);
                   Plm = snd (foldl (rsh_Pmm sox2 dfac) (1, Plm) [1..lmax]);
                   Plm = Plm((1, 0) := x);
                   Plm = Plm((0, 1) := 0)
               in Option.bind (foldl (rsh_Plm_l x) (Some Plm) [2..lmax]) (\<lambda>Plm.
                  Option.bind (checked_div 1 (sqrt (4 * pi))) (\<lambda>osq4pi.
                    foldl (rsh_Slm_l osq4pi phi fac Plm) (Some rshValues) [0..lmax])))
         else Option.bind (checked_div 1 (sqrt (4 * pi))) (\<lambda>v.
                Some (Matrix_set rshValues 0 0 v)))"

text \<open>
  The direction and the harmonics of one primitive pair as \<open>type1\<close> computes them, with
  \<open>fac = facArray(2*maxL)\<close>, \<open>dfac = dfacArray(2*maxL)\<close> and the library function \<open>atan2\<close>
  as a parameter.
\<close>

definition type1_pair_harmonics ::
  "(real \<Rightarrow> real \<Rightarrow> real) \<Rightarrow> (int \<times> int \<Rightarrow> real) \<Rightarrow> int \<Rightarrow> real \<Rightarrow> real \<Rightarrow> real list \<Rightarrow> real list
     \<Rightarrow> pair_parameters \<Rightarrow> (real \<times> Matrix) option" where
  "type1_pair_harmonics atan2 Plm0 maxL za zb Avec Bvec pp =
     Option.bind (type1_direction za zb Avec Bvec pp) (\<lambda>(x, Py, Px).
       (let phi = atan2 Py Px
        in Option.bind (realSphericalHarmonics Plm0 maxL x phi (facArray (2 * maxL))
                          (dfacArray (2 * maxL)))
             (\<lambda>harmonics. Some (x, harmonics))))"

section \<open>Radial integrals: \<open>RadialIntegral::type2\<close>\<close>

text \<open>
  Modelled from the spec: the class \<open>GaussianShell\<close> is not among the sources. The spec
  describes a shell as an ordered sequence of primitives, each an exponent (\<open>exp(a)\<close>) and a
  contraction coefficient (\<open>coef(a)\<close>); \<open>nprimitive()\<close> is their number.
\<close>

record GaussianShell =
  gs_exp :: "real list"
  gs_coef :: "real list"

definition nprimitive :: "GaussianShell \<Rightarrow> int" where
  "nprimitive shell = int (length (gs_exp shell))"

text \<open>
  \<open>void RadialIntegral::buildBessel(r, nr, maxL, values, weight)\<close>. The Bessel tabulator
  \<open>bessie.calculate(z, maxL, besselValues)\<close> is not among the sources; it is the parameter
  \<open>bessie\<close>, which gives the vector \<open>besselValues\<close> for the argument \<open>z\<close>.
\<close>

type_synonym bessel = "real \<Rightarrow> int \<Rightarrow> real list"

definition buildBessel :: "bessel \<Rightarrow> real list \<Rightarrow> int \<Rightarrow> int \<Rightarrow> Matrix \<Rightarrow> real \<Rightarrow> Matrix" where
  "buildBessel bessie r nr maxL values weight =
     foldl (\<lambda>values i.
        (let besselValues = bessie (weight * r ! nat i) maxL
         in foldl (\<lambda>values l. Matrix_set values l i (besselValues ! nat l)) values [0..maxL]))
       values [0..nr - 1]"

text \<open>\<open>void RadialIntegral::buildF(shell, Avec, maxL, r, nr, start, end, F)\<close>\<close>

definition buildF ::
  "bessel \<Rightarrow> GaussianShell \<Rightarrow> real list \<Rightarrow> int \<Rightarrow> real list \<Rightarrow> int \<Rightarrow> int \<Rightarrow> int \<Rightarrow> Matrix" where
  "buildF bessie shell Avec maxL r nr start end' =
     (let np = nprimitive shell;
          A = Avec ! 0 * Avec ! 0 + Avec ! 1 * Avec ! 1 + Avec ! 2 * Avec ! 2;
          A = sqrt A;
          besselValues = Matrix_assign (maxL + 1) nr 0;
          F = Matrix_assign (maxL + 1) nr 0
      in snd (foldl (\<lambda>s a.
            (let zeta = gs_exp shell ! nat a;
                 c = gs_coef shell ! nat a;
                 weight = 2 * zeta * A;
                 besselValues = buildBessel bessie r nr maxL (fst s) weight;
                 F = foldl (\<lambda>F i.
                        (let weight = r ! nat i - A;
                             weight = c * exp (- zeta * weight * weight)
                         in foldl (\<lambda>F l. Matrix_set F l i
                                     (Matrix_get F l i + weight * Matrix_get besselValues l i))
                              F [0..maxL]))
                       (snd s) [start..end']
             in (besselValues, F)))
          (besselValues, F) [0..np - 1]))"

text \<open>
  What \<open>type2\<close> is given and does not change: the quadrature routine and the Bessel
  tabulator (parameters, see above), \<open>newGrid.transformRMinMax\<close> of the absent grid class (a
  parameter as well), the potential \<open>U.evaluate\<close>, the tolerance and the large grid of the
  engine, the arguments \<open>l\<close>, \<open>maxL1\<close>, \<open>maxL2\<close>, \<open>N\<close>, the two shells and their centres,
  and the content \<open>params0\<close> of a fresh \<open>params\<close> array of \<open>integrate\<close>.
\<close>

record type2_env =
  e2_gint :: quadrature
  e2_bessie :: bessel
  e2_transformRMinMax :: "GCQuadrature \<Rightarrow> real \<Rightarrow> real \<Rightarrow> GCQuadrature"
  e2_U :: "real \<Rightarrow> int \<Rightarrow> real"
  e2_tolerance :: real
  e2_bigGrid :: GCQuadrature
  e2_l :: int
  e2_maxL1 :: int
  e2_maxL2 :: int
  e2_N :: int
  e2_shellA :: GaussianShell
  e2_shellB :: GaussianShell
  e2_Avec :: "real list"
  e2_Bvec :: "real list"
  e2_params0 :: "int \<Rightarrow> real"

text \<open>
  The variables of \<open>type2\<close> that its loops change: the output matrix, the small grid of the
  engine, the local \<open>gridSize\<close>, the array \<open>Utab\<close>, the matrices \<open>Fa\<close>, \<open>Fb\<close> and
  \<open>intValues\<close>, the flags \<open>tests\<close> (zero at first; a flag that \<open>integrate\<close> returned
  unassigned is \<open>None\<close>), \<open>failed\<close>, and \<open>tempValues\<close>.
\<close>

record type2_state =
  t2_values :: Matrix
  t2_smallGrid :: GCQuadrature
  t2_gridSize :: int
  t2_Utab :: "int \<Rightarrow> real"
  t2_Fa :: Matrix
  t2_Fb :: Matrix
  t2_intValues :: Matrix
  t2_tests :: "int option list"
  t2_failed :: bool
  t2_tempValues :: "real list"

text \<open>
  The first attempt, on the small grid: the body of the first \<open>for (int l1 = 0; \<dots>)\<close>.
  \<open>integrate\<close> is called without \<open>offset\<close> and \<open>skip\<close>; their defaults are declared in the
  absent header and are taken to be 0 and 1, the values for which every entry of
  \<open>tempValues\<close> that the next line copies has been computed.
\<close>

definition type2_small_row :: "type2_env \<Rightarrow> type2_state option \<Rightarrow> int \<Rightarrow> type2_state option" where
  "type2_small_row E so l1 =
     Option.bind so (\<lambda>s.
       (let intValues =
              foldl (\<lambda>intValues i.
                 foldl (\<lambda>intValues l2. Matrix_set intValues l2 i
                          (t2_Utab s i * Matrix_get (t2_Fa s) l1 i * Matrix_get (t2_Fb s) l2 i))
                   intValues [0..e2_maxL2 E])
                (t2_intValues s) [grid_start (t2_smallGrid s)..grid_end (t2_smallGrid s)]
        in Option.bind
             (integrate (e2_gint E) (e2_tolerance E) (e2_params0 E) (e2_maxL2 E) (t2_gridSize s)
                intValues (t2_smallGrid s) 0 1)
             (\<lambda>r.
               (let tests = (t2_tests s)[nat l1 := ist_test r];
                    failed = (t2_failed s \<or> tests ! nat l1 = Some 0);
                    tempValues = ist_values r;
                    values = foldl (\<lambda>values l2. Matrix_set values l1 l2 (tempValues ! nat l2))
                               (t2_values s) [0..e2_maxL2 E]
                in Some (s\<lparr>t2_values := values, t2_smallGrid := ist_grid r,
                            t2_intValues := intValues, t2_tests := tests, t2_failed := failed,
                            t2_tempValues := tempValues\<rparr>)))))"

text \<open>
  The fallback for one row \<open>l1\<close>: the block guarded by \<open>if (tests[l1] == 0)\<close>, with its
  loops over the primitives \<open>a\<close> of shell A and \<open>b\<close> of shell B. \<open>A\<close> and \<open>B\<close> are the norms
  of the two centres; \<open>p(a, b)\<close>, stored by \<open>buildParameters\<close>, is \<open>zeta_a + zeta_b\<close>;
  \<open>gridPoints\<close> refers to the abscissae of the small grid throughout.
\<close>

definition type2_fallback_b ::
  "type2_env \<Rightarrow> real \<Rightarrow> real \<Rightarrow> int \<Rightarrow> int \<Rightarrow> type2_state option \<Rightarrow> int \<Rightarrow> type2_state option" where
  "type2_fallback_b E A B l1 a so b =
     Option.bind so (\<lambda>s.
       (let zeta_a = gs_exp (e2_shellA E) ! nat a;
            c_a = gs_coef (e2_shellA E) ! nat a;
            zeta_b = gs_exp (e2_shellB E) ! nat b;
            c_b = gs_coef (e2_shellB E) ! nat b;
            weight = 2 * zeta_b * B;
            newGrid = e2_bigGrid E;
            gridSize = grid_N newGrid;
            newGrid = newGrid\<lparr>grid_start := 0\<rparr>;
            newGrid = newGrid\<lparr>grid_end := gridSize\<rparr>;
            p = zeta_a + zeta_b;
            newGrid = e2_transformRMinMax E newGrid p ((zeta_a * A + zeta_b * B) / p);
            gridPoints2 = grid_x newGrid;
            built = buildU (e2_U E) (e2_tolerance E) (e2_l E) (e2_N E) newGrid (t2_Utab s);
            Utab = fst built;
            newGrid = snd built;
            intValues = Matrix_assign (e2_maxL2 E + 1) gridSize 0;
            Fb = buildBessel (e2_bessie E) gridPoints2 gridSize (e2_maxL2 E) (t2_Fb s) weight;
            FbI = foldl (\<lambda>FbI i.
                     (let XB = gridPoints2 ! nat i - B;
                          XB = exp (- zeta_b * XB * XB)
                      in foldl (\<lambda>FbI l2.
                            (let Fb = Matrix_set (fst FbI) l2 i (Matrix_get (fst FbI) l2 i * XB);
                                 intValues = Matrix_set (snd FbI) l2 i
                                   (Utab i * Matrix_get (t2_Fa s) l2 i * Matrix_get Fb l2 i)
                             in (Fb, intValues)))
                           FbI [0..e2_maxL2 E]))
                    (Fb, intValues) [0..gridSize - 1]
        in Option.bind
             (integrate (e2_gint E) (e2_tolerance E) (e2_params0 E) (e2_maxL2 E) gridSize
                (snd FbI) newGrid 0 1)
             (\<lambda>r.
               (let tempValues = ist_values r;
                    values = foldl (\<lambda>values l2. Matrix_set values l1 l2
                                      (Matrix_get values l1 l2 + c_a * c_b * tempValues ! nat l2))
                               (t2_values s) [0..e2_maxL2 E]
                in Some (s\<lparr>t2_values := values, t2_gridSize := gridSize, t2_Utab := Utab,
                            t2_Fb := fst FbI, t2_intValues := snd FbI,
                            t2_tempValues := tempValues\<rparr>)))))"

definition type2_fallback_a ::
  "type2_env \<Rightarrow> real \<Rightarrow> real \<Rightarrow> int \<Rightarrow> type2_state option \<Rightarrow> int \<Rightarrow> type2_state option" where
  "type2_fallback_a E A B l1 so a =
     Option.bind so (\<lambda>s.
       (let zeta_a = gs_exp (e2_shellA E) ! nat a;
            gridPoints = grid_x (t2_smallGrid s);
            weight = 2 * zeta_a * A;
            Fa = buildBessel (e2_bessie E) gridPoints (t2_gridSize s) (e2_maxL2 E) (t2_Fa s) weight;
            Fa = foldl (\<lambda>Fa i.
                    (let XA = gridPoints ! nat i - A;
                         XA = exp (- zeta_a * XA * XA)
                     in foldl (\<lambda>Fa l2. Matrix_set Fa l2 i (Matrix_get Fa l2 i * XA))
                          Fa [0..e2_maxL2 E]))
                   Fa [0..t2_gridSize s - 1]
        in foldl (type2_fallback_b E A B l1 a) (Some (s\<lparr>t2_Fa := Fa\<rparr>))
             [0..nprimitive (e2_shellB E) - 1]))"

definition type2_fallback_row ::
  "type2_env \<Rightarrow> real \<Rightarrow> real \<Rightarrow> type2_state option \<Rightarrow> int \<Rightarrow> type2_state option" where
  "type2_fallback_row E A B so l1 =
     Option.bind so (\<lambda>s.
       (let values = foldl (\<lambda>values l2. Matrix_set values l1 l2 0) (t2_values s) [0..e2_maxL2 E]
        in foldl (type2_fallback_a E A B l1) (Some (s\<lparr>t2_values := values\<rparr>))
             [0..nprimitive (e2_shellA E) - 1]))"

text \<open>The state of \<open>type2\<close> when its first loop over \<open>l1\<close> starts.\<close>

definition type2_start :: "type2_env \<Rightarrow> GCQuadrature \<Rightarrow> (int \<Rightarrow> real) \<Rightarrow> type2_state" where
  "type2_start E smallGrid Utab0 =
     (let gridSize = grid_N smallGrid;
          gridPoints = grid_x smallGrid;
          smallGrid = smallGrid\<lparr>grid_start := 0\<rparr>;
          smallGrid = smallGrid\<lparr>grid_end := gridSize\<rparr>;
          built = buildU (e2_U E) (e2_tolerance E) (e2_l E) (e2_N E) smallGrid Utab0;
          Utab = fst built;
          smallGrid = snd built;
          Fa = buildF (e2_bessie E) (e2_shellA E) (e2_Avec E) (e2_maxL1 E) gridPoints gridSize
                 (grid_start smallGrid) (grid_end smallGrid);
          Fb = buildF (e2_bessie E) (e2_shellB E) (e2_Bvec E) (e2_maxL2 E) gridPoints gridSize
                 (grid_start smallGrid) (grid_end smallGrid)
      in \<lparr>t2_values = Matrix_assign (e2_maxL1 E + 1) (e2_maxL2 E + 1) 0,
          t2_smallGrid = smallGrid, t2_gridSize = gridSize, t2_Utab = Utab, t2_Fa = Fa, t2_Fb = Fb,
          t2_intValues = Matrix_assign (e2_maxL2 E + 1) gridSize 0,
          t2_tests = replicate (nat (e2_maxL1 E + 1)) (Some 0), t2_failed = False,
          t2_tempValues = []\<rparr>)"

text \<open>
  The first attempt alone, and \<open>void RadialIntegral::type2(\<dots>)\<close> as a whole: the first
  attempt, then the fallback for every row whose flag is 0. The result is the final state,
  whose \<open>t2_values\<close> is the output matrix.
\<close>

definition type2_first_attempt ::
  "type2_env \<Rightarrow> GCQuadrature \<Rightarrow> (int \<Rightarrow> real) \<Rightarrow> type2_state option" where
  "type2_first_attempt E smallGrid Utab0 =
     foldl (type2_small_row E) (Some (type2_start E smallGrid Utab0)) [0..e2_maxL1 E]"

definition type2 :: "type2_env \<Rightarrow> GCQuadrature \<Rightarrow> (int \<Rightarrow> real) \<Rightarrow> type2_state option" where
  "type2 E smallGrid Utab0 =
     Option.bind (type2_first_attempt E smallGrid Utab0) (\<lambda>s.
       if t2_failed s
       then (let A = e2_Avec E ! 0 * e2_Avec E ! 0 + e2_Avec E ! 1 * e2_Avec E ! 1
                       + e2_Avec E ! 2 * e2_Avec E ! 2;
                 B = e2_Bvec E ! 0 * e2_Bvec E ! 0 + e2_Bvec E ! 1 * e2_Bvec E ! 1
                       + e2_Bvec E ! 2 * e2_Bvec E ! 2;
                 A = sqrt A;
                 B = sqrt B
             in foldl (\<lambda>so l1.
                   Option.bind so (\<lambda>s.
                     if t2_tests s ! nat l1 = Some 0
                     then type2_fallback_row E A B (Some s) l1 else Some s))
                  (Some s) [0..e2_maxL1 E])
       else Some s)"

text \<open>
  A small input for \<open>type2\<close>: both grids are the two abscissae 1 and 2 (and the transform
  leaves the large grid as it is), the potential is \<open>U(r) = 2 - r\<close>, each shell has one
  primitive with exponent and coefficient 1 and sits at distance 1 from the potential's
  centre, \<open>maxL1 = 1\<close> and \<open>maxL2 = 0\<close>. In place of the absent routines stand a quadrature
  that always reports convergence and returns the sum of the two integrand values, and a
  Bessel tabulator that returns \<open>z^l\<close> for the order \<open>l\<close>.
\<close>

definition ex_quad :: quadrature where
  "ex_quad g p tol = (1, g\<lparr>grid_I := p 0 + p 1\<rparr>)"

definition ex_bessie :: bessel where
  "ex_bessie z maxL = map (\<lambda>l. z ^ nat l) [0..maxL]"

definition ex_grid2 :: GCQuadrature where
  "ex_grid2 = \<lparr>grid_N = 2, grid_x = [1, 2], grid_start = 0, grid_end = 0, grid_I = 0\<rparr>"

definition ex_type2 :: type2_env where
  "ex_type2 = \<lparr>e2_gint = ex_quad, e2_bessie = ex_bessie, e2_transformRMinMax = (\<lambda>g p r. g),
                e2_U = ex_U_step, e2_tolerance = 1 / 2, e2_bigGrid = ex_grid2,
                e2_l = 0, e2_maxL1 = 1, e2_maxL2 = 0, e2_N = 0,
                e2_shellA = \<lparr>gs_exp = [1], gs_coef = [1]\<rparr>,
                e2_shellB = \<lparr>gs_exp = [1], gs_coef = [1]\<rparr>,
                e2_Avec = [1, 0, 0], e2_Bvec = [1, 0, 0], e2_params0 = (\<lambda>_. 0)\<rparr>"

section \<open>Index flattening\<close>

lemma int32_id: "- (2 ^ 31) \<le> x \<Longrightarrow> x < 2 ^ 31 \<Longrightarrow> int32 x = x"
  by (simp add: int32_def)

lemma int32_nonneg: "0 \<le> x \<Longrightarrow> x < 2 ^ 31 \<Longrightarrow> int32 x = x"
  by (rule int32_id) simp_all

lemma le_mult_ge1:
  fixes a g :: int
  assumes "0 \<le> a" "1 \<le> g"
  shows "a \<le> a * g"
  using mult_left_mono [OF assms(2,1)] by simp

lemma flat2_inj:
  fixes d :: int
  assumes "0 \<le> k" "k < d" "0 \<le> k'" "k' < d" "j * d + k = j' * d + k'"
  shows "j = j' \<and> k = k'"
proof -
  have "(k + j * d) div d = j" "(k' + j' * d) div d = j'"
    using assms by simp_all
  with assms(5) have "j = j'" by (simp add: add.commute)
  with assms(5) show ?thesis by simp
qed

lemma flat2_bound:
  fixes d :: int
  assumes "0 \<le> j" "j < e" "0 \<le> k" "k < d"
  shows "0 \<le> j * d + k \<and> j * d + k < e * d"
proof -
  have "j + 1 \<le> e" using assms by simp
  then have "(j + 1) * d \<le> e * d" using assms by (intro mult_right_mono) auto
  then show ?thesis using assms by (simp add: algebra_simps)
qed

lemma flat2_wrap:
  assumes "0 \<le> j" "j < b" "0 \<le> k" "k < c" "b * c < 2 ^ 31"
  shows "add32 (mul32 j c) k = j * c + k" "mul32 b c = b * c"
proof -
  from flat2_bound [OF assms(1-4)] assms(5)
  have t: "0 \<le> j * c + k" "j * c + k < 2 ^ 31" by simp_all
  have jc: "0 \<le> j * c" using assms by simp
  with t assms(3) have "mul32 j c = j * c" unfolding mul32_def by (intro int32_nonneg) simp_all
  with t show "add32 (mul32 j c) k = j * c + k" unfolding add32_def by (simp add: int32_nonneg)
  have "0 \<le> b * c" using assms by simp
  with assms(5) show "mul32 b c = b * c" unfolding mul32_def by (simp add: int32_nonneg)
qed

lemma flat3_wrap:
  assumes "0 \<le> k" "k < c" "0 \<le> l" "l < d" "0 \<le> m" "m < e" "c * d * e < 2 ^ 31"
  shows "add32 (add32 (mul32 (mul32 k d) e) (mul32 l e)) m = (k * d + l) * e + m"
    "mul32 (mul32 c d) e = c * d * e"
proof -
  from flat2_bound [OF assms(1-4)] have kl: "0 \<le> k * d + l" "k * d + l < c * d" by simp_all
  from flat2_bound [OF kl assms(5,6)] assms(7)
  have t: "0 \<le> (k * d + l) * e + m" "(k * d + l) * e + m < 2 ^ 31" by simp_all
  have pos: "0 < c" "0 < d" "0 < e" using assms by simp_all
  have kd0: "0 \<le> k * d" using assms by simp
  have kde0: "0 \<le> k * d * e" using kd0 pos by simp
  have le0: "0 \<le> l * e" using assms by simp
  have kd_le: "k * d \<le> k * d * e" using le_mult_ge1 [OF kd0, of e] pos by simp
  have sum: "(k * d + l) * e + m = k * d * e + l * e + m" by (simp add: algebra_simps)
  have b1: "k * d < 2 ^ 31" using kd_le kde0 le0 assms(5) t sum by linarith
  have b2: "k * d * e < 2 ^ 31" using kde0 le0 assms(5) t sum by linarith
  have b3: "l * e < 2 ^ 31" using kde0 le0 assms(5) t sum by linarith
  have b4: "k * d * e + l * e < 2 ^ 31" using kde0 le0 assms(5) t sum by linarith
  have 1: "mul32 k d = k * d" unfolding mul32_def by (rule int32_nonneg [OF kd0 b1])
  have 2: "mul32 (k * d) e = k * d * e" unfolding mul32_def by (rule int32_nonneg [OF kde0 b2])
  have 3: "mul32 l e = l * e" unfolding mul32_def by (rule int32_nonneg [OF le0 b3])
  have 4: "add32 (k * d * e) (l * e) = k * d * e + l * e"
    unfolding add32_def using kde0 le0 b4 by (intro int32_nonneg) simp_all
  have 5: "add32 (k * d * e + l * e) m = k * d * e + l * e + m"
    unfolding add32_def using t sum by (intro int32_nonneg) simp_all
  show "add32 (add32 (mul32 (mul32 k d) e) (mul32 l e)) m = (k * d + l) * e + m"
    unfolding 1 2 3 4 5 sum ..
  have cd0: "0 \<le> c * d" using pos by simp
  have "c * d \<le> c * d * e" using le_mult_ge1 [OF cd0, of e] pos by simp
  with assms(7) have cd: "c * d < 2 ^ 31" by simp
  have 6: "mul32 c d = c * d" unfolding mul32_def by (rule int32_nonneg [OF cd0 cd])
  have cde0: "0 \<le> c * d * e" using cd0 pos by simp
  have 7: "mul32 (c * d) e = c * d * e" unfolding mul32_def by (rule int32_nonneg [OF cde0 assms(7)])
  show "mul32 (mul32 c d) e = c * d * e"
    unfolding 6 7 ..
qed

lemma flat4_wrap:
  assumes "0 \<le> l" "l < d" "0 \<le> m" "m < e" "0 \<le> n" "n < f" "0 \<le> p" "p < g"
    "d * e * f * g < 2 ^ 31"
  shows "add32 (add32 (add32 (mul32 (mul32 (mul32 l e) f) g) (mul32 (mul32 m f) g)) (mul32 n g)) p
           = ((l * e + m) * f + n) * g + p"
    "mul32 (mul32 (mul32 d e) f) g = d * e * f * g"
proof -
  from flat2_bound [OF assms(1-4)] have lm: "0 \<le> l * e + m" "l * e + m < d * e" by simp_all
  from flat2_bound [OF lm assms(5,6)]
  have lmn: "0 \<le> (l * e + m) * f + n" "(l * e + m) * f + n < d * e * f" by simp_all
  from flat2_bound [OF lmn assms(7,8)] assms(9)
  have t: "0 \<le> ((l * e + m) * f + n) * g + p" "((l * e + m) * f + n) * g + p < 2 ^ 31"
    by simp_all
  have pos: "0 < d" "0 < e" "0 < f" "0 < g" using assms by simp_all
  have le0: "0 \<le> l * e" using assms by simp
  have lef0: "0 \<le> l * e * f" using le0 pos by simp
  have lefg0: "0 \<le> l * e * f * g" using lef0 pos by simp
  have mf0: "0 \<le> m * f" using assms by simp
  have mfg0: "0 \<le> m * f * g" using mf0 pos by simp
  have ng0: "0 \<le> n * g" using assms by simp
  have sum: "((l * e + m) * f + n) * g + p = l * e * f * g + m * f * g + n * g + p"
    by (simp add: algebra_simps)
  have le_le: "l * e \<le> l * e * f" using le_mult_ge1 [OF le0, of f] pos by simp
  have lef_le: "l * e * f \<le> l * e * f * g" using le_mult_ge1 [OF lef0, of g] pos by simp
  have mf_le: "m * f \<le> m * f * g" using le_mult_ge1 [OF mf0, of g] pos by simp
  note facts = lefg0 mfg0 ng0 assms(7) t sum le_le lef_le mf_le
  have b1: "l * e < 2 ^ 31" using facts by linarith
  have b2: "l * e * f < 2 ^ 31" using facts by linarith
  have b3: "l * e * f * g < 2 ^ 31" using facts by linarith
  have b4: "m * f < 2 ^ 31" using facts by linarith
  have b5: "m * f * g < 2 ^ 31" using facts by linarith
  have b6: "n * g < 2 ^ 31" using facts by linarith
  have b7: "l * e * f * g + m * f * g < 2 ^ 31" using facts by linarith
  have b8: "l * e * f * g + m * f * g + n * g < 2 ^ 31" using facts by linarith
  have 1: "mul32 l e = l * e" unfolding mul32_def by (rule int32_nonneg [OF le0 b1])
  have 2: "mul32 (l * e) f = l * e * f" unfolding mul32_def by (rule int32_nonneg [OF lef0 b2])
  have 3: "mul32 (l * e * f) g = l * e * f * g" unfolding mul32_def by (rule int32_nonneg [OF lefg0 b3])
  have 4: "mul32 m f = m * f" unfolding mul32_def by (rule int32_nonneg [OF mf0 b4])
  have 5: "mul32 (m * f) g = m * f * g" unfolding mul32_def by (rule int32_nonneg [OF mfg0 b5])
  have 6: "mul32 n g = n * g" unfolding mul32_def by (rule int32_nonneg [OF ng0 b6])
  have 7: "add32 (l * e * f * g) (m * f * g) = l * e * f * g + m * f * g"
    unfolding add32_def using lefg0 mfg0 b7 by (intro int32_nonneg) simp_all
  have 8: "add32 (l * e * f * g + m * f * g) (n * g) = l * e * f * g + m * f * g + n * g"
    unfolding add32_def using lefg0 mfg0 ng0 b8 by (intro int32_nonneg) simp_all
  have 9: "add32 (l * e * f * g + m * f * g + n * g) p = l * e * f * g + m * f * g + n * g + p"
    unfolding add32_def using t sum by (intro int32_nonneg) simp_all
  show "add32 (add32 (add32 (mul32 (mul32 (mul32 l e) f) g) (mul32 (mul32 m f) g)) (mul32 n g)) p
           = ((l * e + m) * f + n) * g + p"
    unfolding 1 2 3 4 5 6 7 8 9 sum ..
  have de0: "0 \<le> d * e" using pos by simp
  have def0: "0 \<le> d * e * f" using de0 pos by simp
  have defg0: "0 \<le> d * e * f * g" using def0 pos by simp
  have "d * e \<le> d * e * f" using le_mult_ge1 [OF de0, of f] pos by simp
  moreover have "d * e * f \<le> d * e * f * g" using le_mult_ge1 [OF def0, of g] pos by simp
  ultimately have de: "d * e < 2 ^ 31" and "def": "d * e * f < 2 ^ 31" using assms(9) by simp_all
  have 10: "mul32 d e = d * e" unfolding mul32_def by (rule int32_nonneg [OF de0 de])
  have 11: "mul32 (d * e) f = d * e * f" unfolding mul32_def by (rule int32_nonneg [OF def0 "def"])
  have 12: "mul32 (d * e * f) g = d * e * f * g"
    unfolding mul32_def by (rule int32_nonneg [OF defg0 assms(9)])
  show "mul32 (mul32 (mul32 d e) f) g = d * e * f * g"
    unfolding 10 11 12 ..
qed


lemma ThreeIndex_cell_flat:
  assumes "ThreeIndex_in_range T i j k" "dims3 T ! 1 * dims3 T ! 2 < 2 ^ 31"
  shows "ThreeIndex_cell T i j k = (i, j * (dims3 T ! 2) + k)"
proof -
  from assms(1) have h: "0 \<le> j" "j < dims3 T ! 1" "0 \<le> k" "k < dims3 T ! 2"
    by (simp_all add: ThreeIndex_in_range_def)
  show ?thesis unfolding ThreeIndex_cell_def flat2_wrap(1) [OF h assms(2)] ..
qed

lemma ThreeIndex_cell_inj:
  assumes "ThreeIndex_in_range T i j k" "ThreeIndex_in_range T i' j' k'"
    and "dims3 T ! 1 * dims3 T ! 2 < 2 ^ 31"
    and "ThreeIndex_cell T i j k = ThreeIndex_cell T i' j' k'"
  shows "i = i' \<and> j = j' \<and> k = k'"
proof -
  from assms(4) have r: "i = i'" and c: "j * (dims3 T ! 2) + k = j' * (dims3 T ! 2) + k'"
    unfolding ThreeIndex_cell_flat [OF assms(1,3)] ThreeIndex_cell_flat [OF assms(2,3)]
    by simp_all
  from assms(1,2) have "0 \<le> k" "k < dims3 T ! 2" "0 \<le> k'" "k' < dims3 T ! 2"
    by (simp_all add: ThreeIndex_in_range_def)
  from flat2_inj [OF this c] r show ?thesis by simp
qed

lemma ThreeIndex_cell_in_Matrix:
  assumes "ThreeIndex_in_range (ThreeIndex_new a b c) i j k" "b * c < 2 ^ 31"
  shows "in_Matrix (data3 (ThreeIndex_new a b c)) (ThreeIndex_cell (ThreeIndex_new a b c) i j k)"
proof -
  from assms have h: "0 \<le> i" "i < a" "0 \<le> j" "j < b" "0 \<le> k" "k < c"
    by (simp_all add: ThreeIndex_in_range_def ThreeIndex_new_def)
  from flat2_bound [OF h(3,4,5,6)] h(1,2) show ?thesis
    by (simp add: in_Matrix_def ThreeIndex_cell_def ThreeIndex_new_def Matrix_resize_def
        flat2_wrap [OF h(3-6) assms(2)])
qed

lemma FiveIndex_cell_flat:
  assumes "FiveIndex_in_range T i j k l m"
    and "dims5 T ! 0 * dims5 T ! 1 < 2 ^ 31" "dims5 T ! 2 * dims5 T ! 3 * dims5 T ! 4 < 2 ^ 31"
  shows "FiveIndex_cell T i j k l m =
           (i * (dims5 T ! 1) + j, (k * (dims5 T ! 3) + l) * (dims5 T ! 4) + m)"
proof -
  from assms(1) have h: "0 \<le> i" "i < dims5 T ! 0" "0 \<le> j" "j < dims5 T ! 1"
    "0 \<le> k" "k < dims5 T ! 2" "0 \<le> l" "l < dims5 T ! 3" "0 \<le> m" "m < dims5 T ! 4"
    by (simp_all add: FiveIndex_in_range_def)
  show ?thesis
    unfolding FiveIndex_cell_def flat2_wrap(1) [OF h(1-4) assms(2)] flat3_wrap(1) [OF h(5-10) assms(3)] ..
qed

lemma FiveIndex_cell_inj:
  assumes "FiveIndex_in_range T i j k l m" "FiveIndex_in_range T i' j' k' l' m'"
    and f: "dims5 T ! 0 * dims5 T ! 1 < 2 ^ 31" "dims5 T ! 2 * dims5 T ! 3 * dims5 T ! 4 < 2 ^ 31"
    and "FiveIndex_cell T i j k l m = FiveIndex_cell T i' j' k' l' m'"
  shows "i = i' \<and> j = j' \<and> k = k' \<and> l = l' \<and> m = m'"
proof -
  let ?d1 = "dims5 T ! 1" and ?d3 = "dims5 T ! 3" and ?d4 = "dims5 T ! 4"
  from assms(5) have r: "i * ?d1 + j = i' * ?d1 + j'"
    and c: "(k * ?d3 + l) * ?d4 + m = (k' * ?d3 + l') * ?d4 + m'"
    unfolding FiveIndex_cell_flat [OF assms(1) f] FiveIndex_cell_flat [OF assms(2) f]
    by simp_all
  from assms(1,2) have b: "0 \<le> j" "j < ?d1" "0 \<le> j'" "j' < ?d1"
    "0 \<le> l" "l < ?d3" "0 \<le> l'" "l' < ?d3" "0 \<le> m" "m < ?d4" "0 \<le> m'" "m' < ?d4"
    by (simp_all add: FiveIndex_in_range_def)
  from flat2_inj [OF b(1,2,3,4) r] have ij: "i = i' \<and> j = j'" .
  from flat2_inj [OF b(9,10,11,12) c] have c': "k * ?d3 + l = k' * ?d3 + l'" and m: "m = m'"
    by simp_all
  from flat2_inj [OF b(5,6,7,8) c'] ij m show ?thesis by simp
qed

lemma FiveIndex_cell_in_Matrix:
  assumes "FiveIndex_in_range (FiveIndex_new a b c d e) i j k l m"
    and f: "a * b < 2 ^ 31" "c * d * e < 2 ^ 31"
  shows "in_Matrix (data5 (FiveIndex_new a b c d e))
           (FiveIndex_cell (FiveIndex_new a b c d e) i j k l m)"
proof -
  from assms have h: "0 \<le> i" "i < a" "0 \<le> j" "j < b" "0 \<le> k" "k < c" "0 \<le> l" "l < d"
    "0 \<le> m" "m < e"
    by (simp_all add: FiveIndex_in_range_def FiveIndex_new_def)
  from flat2_bound [OF h(1,2,3,4)] have r: "0 \<le> i * b + j" "i * b + j < a * b" by simp_all
  from flat2_bound [OF h(5,6,7,8)] have kl: "0 \<le> k * d + l" "k * d + l < c * d" by simp_all
  from flat2_bound [OF kl h(9,10)] have "0 \<le> (k * d + l) * e + m" "(k * d + l) * e + m < c * d * e"
    by simp_all
  with r show ?thesis
    by (simp add: in_Matrix_def FiveIndex_cell_def FiveIndex_new_def Matrix_resize_def
        flat2_wrap [OF h(1-4) f(1)] flat3_wrap [OF h(5-10) f(2)])
qed

lemma SevenIndex_cell_flat:
  assumes "SevenIndex_in_range T i j k l m n p"
    and "dims7 T ! 0 * dims7 T ! 1 * dims7 T ! 2 < 2 ^ 31"
      "dims7 T ! 3 * dims7 T ! 4 * dims7 T ! 5 * dims7 T ! 6 < 2 ^ 31"
  shows "SevenIndex_cell T i j k l m n p =
           ((i * (dims7 T ! 1) + j) * (dims7 T ! 2) + k,
            ((l * (dims7 T ! 4) + m) * (dims7 T ! 5) + n) * (dims7 T ! 6) + p)"
proof -
  from assms(1) have h: "0 \<le> i" "i < dims7 T ! 0" "0 \<le> j" "j < dims7 T ! 1"
    "0 \<le> k" "k < dims7 T ! 2" "0 \<le> l" "l < dims7 T ! 3" "0 \<le> m" "m < dims7 T ! 4"
    "0 \<le> n" "n < dims7 T ! 5" "0 \<le> p" "p < dims7 T ! 6"
    by (simp_all add: SevenIndex_in_range_def)
  show ?thesis
    unfolding SevenIndex_cell_def flat3_wrap(1) [OF h(1-6) assms(2)]
      flat4_wrap(1) [OF h(7-14) assms(3)] ..
qed

lemma SevenIndex_cell_inj:
  assumes "SevenIndex_in_range T i j k l m n p" "SevenIndex_in_range T i' j' k' l' m' n' p'"
    and f: "dims7 T ! 0 * dims7 T ! 1 * dims7 T ! 2 < 2 ^ 31"
      "dims7 T ! 3 * dims7 T ! 4 * dims7 T ! 5 * dims7 T ! 6 < 2 ^ 31"
    and "SevenIndex_cell T i j k l m n p = SevenIndex_cell T i' j' k' l' m' n' p'"
  shows "i = i' \<and> j = j' \<and> k = k' \<and> l = l' \<and> m = m' \<and> n = n' \<and> p = p'"
proof -
  let ?d1 = "dims7 T ! 1" and ?d2 = "dims7 T ! 2" and ?d4 = "dims7 T ! 4"
    and ?d5 = "dims7 T ! 5" and ?d6 = "dims7 T ! 6"
  from assms(5) have r: "(i * ?d1 + j) * ?d2 + k = (i' * ?d1 + j') * ?d2 + k'"
    and c: "((l * ?d4 + m) * ?d5 + n) * ?d6 + p = ((l' * ?d4 + m') * ?d5 + n') * ?d6 + p'"
    unfolding SevenIndex_cell_flat [OF assms(1) f] SevenIndex_cell_flat [OF assms(2) f]
    by simp_all
  from assms(1,2) have b: "0 \<le> j" "j < ?d1" "0 \<le> j'" "j' < ?d1"
    "0 \<le> k" "k < ?d2" "0 \<le> k'" "k' < ?d2" "0 \<le> m" "m < ?d4" "0 \<le> m'" "m' < ?d4"
    "0 \<le> n" "n < ?d5" "0 \<le> n'" "n' < ?d5" "0 \<le> p" "p < ?d6" "0 \<le> p'" "p' < ?d6"
    by (simp_all add: SevenIndex_in_range_def)
  from flat2_inj [OF b(5,6,7,8) r] have r': "i * ?d1 + j = i' * ?d1 + j'" and k: "k = k'"
    by simp_all
  from flat2_inj [OF b(1,2,3,4) r'] have ij: "i = i' \<and> j = j'" .
  from flat2_inj [OF b(17,18,19,20) c]
  have c': "(l * ?d4 + m) * ?d5 + n = (l' * ?d4 + m') * ?d5 + n'" and p: "p = p'"
    by simp_all
  from flat2_inj [OF b(13,14,15,16) c'] have c'': "l * ?d4 + m = l' * ?d4 + m'" and n: "n = n'"
    by simp_all
  from flat2_inj [OF b(9,10,11,12) c''] ij k n p show ?thesis by simp
qed

lemma SevenIndex_cell_in_Matrix:
  assumes "SevenIndex_in_range (SevenIndex_new a b c d e f g) i j k l m n p"
    and F: "a * b * c < 2 ^ 31" "d * e * f * g < 2 ^ 31"
  shows "in_Matrix (data7 (SevenIndex_new a b c d e f g))
           (SevenIndex_cell (SevenIndex_new a b c d e f g) i j k l m n p)"
proof -
  from assms have h: "0 \<le> i" "i < a" "0 \<le> j" "j < b" "0 \<le> k" "k < c" "0 \<le> l" "l < d"
    "0 \<le> m" "m < e" "0 \<le> n" "n < f" "0 \<le> p" "p < g"
    by (simp_all add: SevenIndex_in_range_def SevenIndex_new_def)
  from flat2_bound [OF h(1,2,3,4)] have ij: "0 \<le> i * b + j" "i * b + j < a * b" by simp_all
  from flat2_bound [OF ij h(5,6)] have r: "0 \<le> (i * b + j) * c + k" "(i * b + j) * c + k < a * b * c"
    by simp_all
  from flat2_bound [OF h(7,8,9,10)] have lm: "0 \<le> l * e + m" "l * e + m < d * e" by simp_all
  from flat2_bound [OF lm h(11,12)] have lmn: "0 \<le> (l * e + m) * f + n" "(l * e + m) * f + n < d * e * f"
    by simp_all
  from flat2_bound [OF lmn h(13,14)]
  have "0 \<le> ((l * e + m) * f + n) * g + p" "((l * e + m) * f + n) * g + p < d * e * f * g"
    by simp_all
  with r show ?thesis
    by (simp add: in_Matrix_def SevenIndex_cell_def SevenIndex_new_def Matrix_resize_def
        flat3_wrap [OF h(1-6) F(1)] flat4_wrap [OF h(7-14) F(2)])
qed

section \<open>Tensor accessors address distinct cells\<close>

lemma ThreeIndex_cell_set [simp]:
  "ThreeIndex_cell (ThreeIndex_set T i j k v) = ThreeIndex_cell T"
  by (simp add: ThreeIndex_cell_def ThreeIndex_set_def fun_eq_iff)

lemma ThreeIndex_get_set:
  "ThreeIndex_get (ThreeIndex_set T i j k v) i' j' k' =
     (if ThreeIndex_cell T i' j' k' = ThreeIndex_cell T i j k then v else ThreeIndex_get T i' j' k')"
  by (simp add: ThreeIndex_get_def) (simp add: ThreeIndex_set_def)

lemma FiveIndex_cell_set [simp]:
  "FiveIndex_cell (FiveIndex_set T i j k l m v) = FiveIndex_cell T"
  by (simp add: FiveIndex_cell_def FiveIndex_set_def fun_eq_iff)

lemma FiveIndex_get_set:
  "FiveIndex_get (FiveIndex_set T i j k l m v) i' j' k' l' m' =
     (if FiveIndex_cell T i' j' k' l' m' = FiveIndex_cell T i j k l m then v
      else FiveIndex_get T i' j' k' l' m')"
  by (simp add: FiveIndex_get_def) (simp add: FiveIndex_set_def)

lemma SevenIndex_cell_set [simp]:
  "SevenIndex_cell (SevenIndex_set T i j k l m n p v) = SevenIndex_cell T"
  by (simp add: SevenIndex_cell_def SevenIndex_set_def fun_eq_iff)

lemma SevenIndex_get_set:
  "SevenIndex_get (SevenIndex_set T i j k l m n p v) i' j' k' l' m' n' p' =
     (if SevenIndex_cell T i' j' k' l' m' n' p' = SevenIndex_cell T i j k l m n p then v
      else SevenIndex_get T i' j' k' l' m' n' p')"
  by (simp add: SevenIndex_get_def) (simp add: SevenIndex_set_def)

lemma ThreeIndex_frame:
  assumes "ThreeIndex_in_range T i j k" "ThreeIndex_in_range T i' j' k'"
    and "dims3 T ! 1 * dims3 T ! 2 < 2 ^ 31"
    and "(i, j, k) \<noteq> (i', j', k')"
  shows "ThreeIndex_get (ThreeIndex_set T i j k v) i' j' k' = ThreeIndex_get T i' j' k'"
proof -
  have "ThreeIndex_cell T i' j' k' \<noteq> ThreeIndex_cell T i j k"
    using ThreeIndex_cell_inj [OF assms(1,2,3)] assms(4) by auto
  then show ?thesis
    by (simp add: ThreeIndex_get_set)
qed

lemma FiveIndex_frame:
  assumes "FiveIndex_in_range T i j k l m" "FiveIndex_in_range T i' j' k' l' m'"
    and "dims5 T ! 0 * dims5 T ! 1 < 2 ^ 31" "dims5 T ! 2 * dims5 T ! 3 * dims5 T ! 4 < 2 ^ 31"
    and "(i, j, k, l, m) \<noteq> (i', j', k', l', m')"
  shows "FiveIndex_get (FiveIndex_set T i j k l m v) i' j' k' l' m' = FiveIndex_get T i' j' k' l' m'"
proof -
  have "FiveIndex_cell T i' j' k' l' m' \<noteq> FiveIndex_cell T i j k l m"
    using FiveIndex_cell_inj [OF assms(1,2,3,4)] assms(5) by auto
  then show ?thesis
    by (simp add: FiveIndex_get_set)
qed

lemma SevenIndex_frame:
  assumes "SevenIndex_in_range T i j k l m n p" "SevenIndex_in_range T i' j' k' l' m' n' p'"
    and "dims7 T ! 0 * dims7 T ! 1 * dims7 T ! 2 < 2 ^ 31"
      "dims7 T ! 3 * dims7 T ! 4 * dims7 T ! 5 * dims7 T ! 6 < 2 ^ 31"
    and "(i, j, k, l, m, n, p) \<noteq> (i', j', k', l', m', n', p')"
  shows "SevenIndex_get (SevenIndex_set T i j k l m n p v) i' j' k' l' m' n' p'
           = SevenIndex_get T i' j' k' l' m' n' p'"
proof -
  have "SevenIndex_cell T i' j' k' l' m' n' p' \<noteq> SevenIndex_cell T i j k l m n p"
    using SevenIndex_cell_inj [OF assms(1,2,3,4)] assms(5) by auto
  then show ?thesis
    by (simp add: SevenIndex_get_set)
qed

text \<open>
  Claim C10, as stated, at \<open>FiveIndex(1, 1, 2, 65536, 65536)\<close>: the tuples
  \<open>(0, 0, 1, 0, 0)\<close> and \<open>(0, 0, 0, 0, 0)\<close> are both within the extents, the product
  \<open>1 * 65536 * 65536\<close> of \<open>operator()\<close> is \<open>2\<^sup>3\<^sup>2\<close> and wraps to 0, both tuples address the
  cell \<open>(0, 0)\<close>, and a write at the first tuple is read back at the second.
\<close>

theorem tensor_index_counterexample:
  "FiveIndex_in_range (FiveIndex_new 1 1 2 65536 65536) 0 0 1 0 0 \<and>
   FiveIndex_in_range (FiveIndex_new 1 1 2 65536 65536) 0 0 0 0 0 \<and>
   FiveIndex_cell (FiveIndex_new 1 1 2 65536 65536) 0 0 1 0 0 = (0, 0) \<and>
   FiveIndex_cell (FiveIndex_new 1 1 2 65536 65536) 0 0 0 0 0 = (0, 0) \<and>
   FiveIndex_get (FiveIndex_new 1 1 2 65536 65536) 0 0 0 0 0 = 0 \<and>
   FiveIndex_get (FiveIndex_set (FiveIndex_new 1 1 2 65536 65536) 0 0 1 0 0 7) 0 0 0 0 0 = 7"
  by (simp add: FiveIndex_in_range_def FiveIndex_new_def FiveIndex_cell_def FiveIndex_get_def
      FiveIndex_set_def Matrix_resize_def mul32_def add32_def int32_def)

text \<open>
  Claim C10, as amended. For a \<open>ThreeIndex\<close>, \<open>FiveIndex\<close> or \<open>SevenIndex\<close> tensor with the
  extents fixed by its constructor, when the product of the extents that \<open>operator()\<close>
  flattens into the row and the product of the extents that it flattens into the column are
  both below \<open>2\<^sup>3\<^sup>1\<close> (the \<open>int\<close> products and sums of \<open>operator()\<close> and of the constructor
  then do not overflow), two distinct index tuples whose components all lie within the
  extents are flattened to distinct cells of the backing matrix, both cells lie inside the
  matrix, and writing the entry of one tuple leaves the entry read at the other tuple
  unchanged. The row of a \<open>ThreeIndex\<close> is its first index, without a product.
\<close>

theorem tensor_index_injective:
  "(ThreeIndex_in_range (ThreeIndex_new a3 b3 c3) i3 j3 k3 \<and>
    ThreeIndex_in_range (ThreeIndex_new a3 b3 c3) i3' j3' k3' \<and>
    (i3, j3, k3) \<noteq> (i3', j3', k3') \<and> b3 * c3 < 2 ^ 31 \<longrightarrow>
      ThreeIndex_cell (ThreeIndex_new a3 b3 c3) i3 j3 k3
        \<noteq> ThreeIndex_cell (ThreeIndex_new a3 b3 c3) i3' j3' k3' \<and>
      in_Matrix (data3 (ThreeIndex_new a3 b3 c3)) (ThreeIndex_cell (ThreeIndex_new a3 b3 c3) i3 j3 k3) \<and>
      in_Matrix (data3 (ThreeIndex_new a3 b3 c3)) (ThreeIndex_cell (ThreeIndex_new a3 b3 c3) i3' j3' k3') \<and>
      ThreeIndex_get (ThreeIndex_set (ThreeIndex_new a3 b3 c3) i3 j3 k3 v3) i3' j3' k3'
        = ThreeIndex_get (ThreeIndex_new a3 b3 c3) i3' j3' k3') \<and>
   (FiveIndex_in_range (FiveIndex_new a5 b5 c5 d5 e5) i5 j5 k5 l5 m5 \<and>
    FiveIndex_in_range (FiveIndex_new a5 b5 c5 d5 e5) i5' j5' k5' l5' m5' \<and>
    (i5, j5, k5, l5, m5) \<noteq> (i5', j5', k5', l5', m5') \<and>
    a5 * b5 < 2 ^ 31 \<and> c5 * d5 * e5 < 2 ^ 31 \<longrightarrow>
      FiveIndex_cell (FiveIndex_new a5 b5 c5 d5 e5) i5 j5 k5 l5 m5
        \<noteq> FiveIndex_cell (FiveIndex_new a5 b5 c5 d5 e5) i5' j5' k5' l5' m5' \<and>
      in_Matrix (data5 (FiveIndex_new a5 b5 c5 d5 e5))
        (FiveIndex_cell (FiveIndex_new a5 b5 c5 d5 e5) i5 j5 k5 l5 m5) \<and>
      in_Matrix (data5 (FiveIndex_new a5 b5 c5 d5 e5))
        (FiveIndex_cell (FiveIndex_new a5 b5 c5 d5 e5) i5' j5' k5' l5' m5') \<and>
      FiveIndex_get (FiveIndex_set (FiveIndex_new a5 b5 c5 d5 e5) i5 j5 k5 l5 m5 v5) i5' j5' k5' l5' m5'
        = FiveIndex_get (FiveIndex_new a5 b5 c5 d5 e5) i5' j5' k5' l5' m5') \<and>
   (SevenIndex_in_range (SevenIndex_new a7 b7 c7 d7 e7 f7 g7) i7 j7 k7 l7 m7 n7 p7 \<and>
    SevenIndex_in_range (SevenIndex_new a7 b7 c7 d7 e7 f7 g7) i7' j7' k7' l7' m7' n7' p7' \<and>
    (i7, j7, k7, l7, m7, n7, p7) \<noteq> (i7', j7', k7', l7', m7', n7', p7') \<and>
    a7 * b7 * c7 < 2 ^ 31 \<and> d7 * e7 * f7 * g7 < 2 ^ 31 \<longrightarrow>
      SevenIndex_cell (SevenIndex_new a7 b7 c7 d7 e7 f7 g7) i7 j7 k7 l7 m7 n7 p7
        \<noteq> SevenIndex_cell (SevenIndex_new a7 b7 c7 d7 e7 f7 g7) i7' j7' k7' l7' m7' n7' p7' \<and>
      in_Matrix (data7 (SevenIndex_new a7 b7 c7 d7 e7 f7 g7))
        (SevenIndex_cell (SevenIndex_new a7 b7 c7 d7 e7 f7 g7) i7 j7 k7 l7 m7 n7 p7) \<and>
      in_Matrix (data7 (SevenIndex_new a7 b7 c7 d7 e7 f7 g7))
        (SevenIndex_cell (SevenIndex_new a7 b7 c7 d7 e7 f7 g7) i7' j7' k7' l7' m7' n7' p7') \<and>
      SevenIndex_get (SevenIndex_set (SevenIndex_new a7 b7 c7 d7 e7 f7 g7) i7 j7 k7 l7 m7 n7 p7 v7)
          i7' j7' k7' l7' m7' n7' p7'
        = SevenIndex_get (SevenIndex_new a7 b7 c7 d7 e7 f7 g7) i7' j7' k7' l7' m7' n7' p7')"
proof (intro conjI impI)
  assume h: "ThreeIndex_in_range (ThreeIndex_new a3 b3 c3) i3 j3 k3 \<and>
    ThreeIndex_in_range (ThreeIndex_new a3 b3 c3) i3' j3' k3' \<and> (i3, j3, k3) \<noteq> (i3', j3', k3') \<and>
    b3 * c3 < 2 ^ 31"
  then have r: "ThreeIndex_in_range (ThreeIndex_new a3 b3 c3) i3 j3 k3"
    and r': "ThreeIndex_in_range (ThreeIndex_new a3 b3 c3) i3' j3' k3'"
    and ne: "(i3, j3, k3) \<noteq> (i3', j3', k3')" and f: "b3 * c3 < 2 ^ 31" by simp_all
  from f have F: "dims3 (ThreeIndex_new a3 b3 c3) ! 1 * dims3 (ThreeIndex_new a3 b3 c3) ! 2 < 2 ^ 31"
    by (simp add: ThreeIndex_new_def)
  show "ThreeIndex_cell (ThreeIndex_new a3 b3 c3) i3 j3 k3
        \<noteq> ThreeIndex_cell (ThreeIndex_new a3 b3 c3) i3' j3' k3'"
    using ThreeIndex_cell_inj [OF r r' F] ne by auto
  show "in_Matrix (data3 (ThreeIndex_new a3 b3 c3)) (ThreeIndex_cell (ThreeIndex_new a3 b3 c3) i3 j3 k3)"
    by (rule ThreeIndex_cell_in_Matrix [OF r f])
  show "in_Matrix (data3 (ThreeIndex_new a3 b3 c3)) (ThreeIndex_cell (ThreeIndex_new a3 b3 c3) i3' j3' k3')"
    by (rule ThreeIndex_cell_in_Matrix [OF r' f])
  show "ThreeIndex_get (ThreeIndex_set (ThreeIndex_new a3 b3 c3) i3 j3 k3 v3) i3' j3' k3'
        = ThreeIndex_get (ThreeIndex_new a3 b3 c3) i3' j3' k3'"
    by (rule ThreeIndex_frame [OF r r' F ne])
next
  assume h: "FiveIndex_in_range (FiveIndex_new a5 b5 c5 d5 e5) i5 j5 k5 l5 m5 \<and>
    FiveIndex_in_range (FiveIndex_new a5 b5 c5 d5 e5) i5' j5' k5' l5' m5' \<and>
    (i5, j5, k5, l5, m5) \<noteq> (i5', j5', k5', l5', m5') \<and>
    a5 * b5 < 2 ^ 31 \<and> c5 * d5 * e5 < 2 ^ 31"
  then have r: "FiveIndex_in_range (FiveIndex_new a5 b5 c5 d5 e5) i5 j5 k5 l5 m5"
    and r': "FiveIndex_in_range (FiveIndex_new a5 b5 c5 d5 e5) i5' j5' k5' l5' m5'"
    and ne: "(i5, j5, k5, l5, m5) \<noteq> (i5', j5', k5', l5', m5')"
    and f: "a5 * b5 < 2 ^ 31" "c5 * d5 * e5 < 2 ^ 31" by simp_all
  from f have F: "dims5 (FiveIndex_new a5 b5 c5 d5 e5) ! 0 * dims5 (FiveIndex_new a5 b5 c5 d5 e5) ! 1 < 2 ^ 31"
    "dims5 (FiveIndex_new a5 b5 c5 d5 e5) ! 2 * dims5 (FiveIndex_new a5 b5 c5 d5 e5) ! 3
       * dims5 (FiveIndex_new a5 b5 c5 d5 e5) ! 4 < 2 ^ 31"
    by (simp_all add: FiveIndex_new_def)
  show "FiveIndex_cell (FiveIndex_new a5 b5 c5 d5 e5) i5 j5 k5 l5 m5
        \<noteq> FiveIndex_cell (FiveIndex_new a5 b5 c5 d5 e5) i5' j5' k5' l5' m5'"
    using FiveIndex_cell_inj [OF r r' F] ne by auto
  show "in_Matrix (data5 (FiveIndex_new a5 b5 c5 d5 e5))
        (FiveIndex_cell (FiveIndex_new a5 b5 c5 d5 e5) i5 j5 k5 l5 m5)"
    by (rule FiveIndex_cell_in_Matrix [OF r f])
  show "in_Matrix (data5 (FiveIndex_new a5 b5 c5 d5 e5))
        (FiveIndex_cell (FiveIndex_new a5 b5 c5 d5 e5) i5' j5' k5' l5' m5')"
    by (rule FiveIndex_cell_in_Matrix [OF r' f])
  show "FiveIndex_get (FiveIndex_set (FiveIndex_new a5 b5 c5 d5 e5) i5 j5 k5 l5 m5 v5) i5' j5' k5' l5' m5'
        = FiveIndex_get (FiveIndex_new a5 b5 c5 d5 e5) i5' j5' k5' l5' m5'"
    by (rule FiveIndex_frame [OF r r' F ne])
next
  assume h: "SevenIndex_in_range (SevenIndex_new a7 b7 c7 d7 e7 f7 g7) i7 j7 k7 l7 m7 n7 p7 \<and>
    SevenIndex_in_range (SevenIndex_new a7 b7 c7 d7 e7 f7 g7) i7' j7' k7' l7' m7' n7' p7' \<and>
    (i7, j7, k7, l7, m7, n7, p7) \<noteq> (i7', j7', k7', l7', m7', n7', p7') \<and>
    a7 * b7 * c7 < 2 ^ 31 \<and> d7 * e7 * f7 * g7 < 2 ^ 31"
  then have r: "SevenIndex_in_range (SevenIndex_new a7 b7 c7 d7 e7 f7 g7) i7 j7 k7 l7 m7 n7 p7"
    and r': "SevenIndex_in_range (SevenIndex_new a7 b7 c7 d7 e7 f7 g7) i7' j7' k7' l7' m7' n7' p7'"
    and ne: "(i7, j7, k7, l7, m7, n7, p7) \<noteq> (i7', j7', k7', l7', m7', n7', p7')"
    and f: "a7 * b7 * c7 < 2 ^ 31" "d7 * e7 * f7 * g7 < 2 ^ 31" by simp_all
  from f have F: "dims7 (SevenIndex_new a7 b7 c7 d7 e7 f7 g7) ! 0 * dims7 (SevenIndex_new a7 b7 c7 d7 e7 f7 g7) ! 1
       * dims7 (SevenIndex_new a7 b7 c7 d7 e7 f7 g7) ! 2 < 2 ^ 31"
    "dims7 (SevenIndex_new a7 b7 c7 d7 e7 f7 g7) ! 3 * dims7 (SevenIndex_new a7 b7 c7 d7 e7 f7 g7) ! 4
       * dims7 (SevenIndex_new a7 b7 c7 d7 e7 f7 g7) ! 5 * dims7 (SevenIndex_new a7 b7 c7 d7 e7 f7 g7) ! 6
       < 2 ^ 31"
    by (simp_all add: SevenIndex_new_def)
  show "SevenIndex_cell (SevenIndex_new a7 b7 c7 d7 e7 f7 g7) i7 j7 k7 l7 m7 n7 p7
        \<noteq> SevenIndex_cell (SevenIndex_new a7 b7 c7 d7 e7 f7 g7) i7' j7' k7' l7' m7' n7' p7'"
    using SevenIndex_cell_inj [OF r r' F] ne by auto
  show "in_Matrix (data7 (SevenIndex_new a7 b7 c7 d7 e7 f7 g7))
        (SevenIndex_cell (SevenIndex_new a7 b7 c7 d7 e7 f7 g7) i7 j7 k7 l7 m7 n7 p7)"
    by (rule SevenIndex_cell_in_Matrix [OF r f])
  show "in_Matrix (data7 (SevenIndex_new a7 b7 c7 d7 e7 f7 g7))
        (SevenIndex_cell (SevenIndex_new a7 b7 c7 d7 e7 f7 g7) i7' j7' k7' l7' m7' n7' p7')"
    by (rule SevenIndex_cell_in_Matrix [OF r' f])
  show "SevenIndex_get (SevenIndex_set (SevenIndex_new a7 b7 c7 d7 e7 f7 g7) i7 j7 k7 l7 m7 n7 p7 v7)
          i7' j7' k7' l7' m7' n7' p7'
        = SevenIndex_get (SevenIndex_new a7 b7 c7 d7 e7 f7 g7) i7' j7' k7' l7' m7' n7' p7'"
    by (rule SevenIndex_frame [OF r r' F ne])
qed

theorem tensor_index_injective_witness:
  "ThreeIndex_cell (ThreeIndex_new 2 3 4) 1 2 3 \<noteq> ThreeIndex_cell (ThreeIndex_new 2 3 4) 1 1 3 \<and>
   ThreeIndex_get (ThreeIndex_set (ThreeIndex_new 2 3 4) 1 2 3 7) 1 1 3
     = ThreeIndex_get (ThreeIndex_new 2 3 4) 1 1 3 \<and>
   FiveIndex_cell (FiveIndex_new 2 3 4 5 2) 1 2 3 4 1 \<noteq> FiveIndex_cell (FiveIndex_new 2 3 4 5 2) 1 2 3 3 1 \<and>
   FiveIndex_get (FiveIndex_set (FiveIndex_new 2 3 4 5 2) 1 2 3 4 1 7) 1 2 3 3 1
     = FiveIndex_get (FiveIndex_new 2 3 4 5 2) 1 2 3 3 1 \<and>
   SevenIndex_cell (SevenIndex_new 2 2 2 3 4 3 4) 1 0 1 2 3 2 3
     \<noteq> SevenIndex_cell (SevenIndex_new 2 2 2 3 4 3 4) 1 0 1 2 3 2 2 \<and>
   SevenIndex_get (SevenIndex_set (SevenIndex_new 2 2 2 3 4 3 4) 1 0 1 2 3 2 3 7) 1 0 1 2 3 2 2
     = SevenIndex_get (SevenIndex_new 2 2 2 3 4 3 4) 1 0 1 2 3 2 2"
  using tensor_index_injective [where ?a3.0 = 2 and ?b3.0 = 3 and ?c3.0 = 4
      and ?i3.0 = 1 and ?j3.0 = 2 and ?k3.0 = 3 and i3' = 1 and j3' = 1 and k3' = 3 and ?v3.0 = 7
      and ?a5.0 = 2 and ?b5.0 = 3 and ?c5.0 = 4 and ?d5.0 = 5 and ?e5.0 = 2
      and ?i5.0 = 1 and ?j5.0 = 2 and ?k5.0 = 3 and ?l5.0 = 4 and ?m5.0 = 1
      and i5' = 1 and j5' = 2 and k5' = 3 and l5' = 3 and m5' = 1 and ?v5.0 = 7
      and ?a7.0 = 2 and ?b7.0 = 2 and ?c7.0 = 2 and ?d7.0 = 3 and ?e7.0 = 4 and ?f7.0 = 3 and ?g7.0 = 4
      and ?i7.0 = 1 and ?j7.0 = 0 and ?k7.0 = 1 and ?l7.0 = 2 and ?m7.0 = 3 and ?n7.0 = 2 and ?p7.0 = 3
      and i7' = 1 and j7' = 0 and k7' = 1 and l7' = 2 and m7' = 3 and n7' = 2 and p7' = 2 and ?v7.0 = 7]
  by (simp add: ThreeIndex_in_range_def ThreeIndex_new_def FiveIndex_in_range_def FiveIndex_new_def
      SevenIndex_in_range_def SevenIndex_new_def)

section \<open>The axis entries of the \<open>Pijk\<close> table\<close>

lemma flat2_pos:
  fixes d :: int
  assumes "0 < d" "1 \<le> j" "0 \<le> k"
  shows "j * d + k \<noteq> 0"
proof -
  have "0 < j * d" using assms by (simp add: mult_pos_pos)
  with assms(3) show ?thesis by simp
qed

lemma ThreeIndex_dims_set [simp]: "dims3 (ThreeIndex_set T i j k v) = dims3 T"
  by (simp add: ThreeIndex_set_def)

lemma ThreeIndex_axis_cell: "ThreeIndex_cell T i 0 0 = (i, 0)"
  by (simp add: ThreeIndex_cell_def mul32_def add32_def int32_def)

lemma ThreeIndex_axis_frame:
  assumes "dims3 T ! 1 * dims3 T ! 2 < 2 ^ 31" "1 \<le> j" "j < dims3 T ! 1"
    "0 \<le> k" "k < dims3 T ! 2"
  shows "ThreeIndex_get (ThreeIndex_set T i j k v) i0 0 0 = ThreeIndex_get T i0 0 0"
proof -
  have j0: "0 \<le> j" using assms(2) by simp
  have d: "0 < dims3 T ! 2" using assms(4,5) by simp
  have "add32 (mul32 j (dims3 T ! 2)) k = j * (dims3 T ! 2) + k"
    by (rule flat2_wrap(1) [OF j0 assms(3,4,5,1)])
  with flat2_pos [OF d assms(2,4)] have "ThreeIndex_cell T i j k \<noteq> ThreeIndex_cell T i0 0 0"
    by (simp add: ThreeIndex_axis_cell) (simp add: ThreeIndex_cell_def)
  then show ?thesis by (simp add: ThreeIndex_get_set)
qed

lemma Pijk_k_fold_inv:
  assumes "dims3 T ! 1 * dims3 T ! 2 < 2 ^ 31" "1 \<le> j" "j < dims3 T ! 1"
    "\<forall>k\<in>set ks. 0 \<le> k \<and> k < dims3 T ! 2"
  shows "dims3 (foldl (\<lambda>values k. ThreeIndex_set values i j k (f values k)) T ks) = dims3 T \<and>
         ThreeIndex_get (foldl (\<lambda>values k. ThreeIndex_set values i j k (f values k)) T ks) i0 0 0
           = ThreeIndex_get T i0 0 0"
  using assms
proof (induction ks arbitrary: T)
  case Nil
  show ?case by simp
next
  case (Cons k ks)
  let ?T = "ThreeIndex_set T i j k (f T k)"
  have k: "0 \<le> k" "k < dims3 T ! 2" using Cons.prems(4) by simp_all
  have 1: "dims3 ?T ! 1 * dims3 ?T ! 2 < 2 ^ 31" "j < dims3 ?T ! 1"
    "\<forall>k\<in>set ks. 0 \<le> k \<and> k < dims3 ?T ! 2"
    using Cons.prems by simp_all
  from Cons.IH [OF 1(1) Cons.prems(2) 1(2,3)]
  show ?case using ThreeIndex_axis_frame [OF Cons.prems(1,2,3) k] by simp
qed

lemma Pijk_k_loop_inv:
  assumes "dims3 T ! 1 * dims3 T ! 2 < 2 ^ 31" "1 \<le> j" "j < dims3 T ! 1" "j < dims3 T ! 2"
  shows "dims3 (Pijk_k_loop T i j) = dims3 T \<and>
         ThreeIndex_get (Pijk_k_loop T i j) i0 0 0 = ThreeIndex_get T i0 0 0"
  unfolding Pijk_k_loop_def
  by (rule Pijk_k_fold_inv [OF assms(1,2,3)]) (use assms(4) in simp)

lemma Pijk_j_fold_inv:
  assumes "dims3 T ! 1 * dims3 T ! 2 < 2 ^ 31"
    "\<forall>j\<in>set js. 1 \<le> j \<and> j < dims3 T ! 1 \<and> j < dims3 T ! 2"
  shows "dims3 (foldl (\<lambda>values j. Pijk_k_loop (ThreeIndex_set values i j 0 (f values j)) i j) T js)
           = dims3 T \<and>
         ThreeIndex_get (foldl (\<lambda>values j. Pijk_k_loop (ThreeIndex_set values i j 0 (f values j)) i j) T js)
             i0 0 0 = ThreeIndex_get T i0 0 0"
  using assms
proof (induction js arbitrary: T)
  case Nil
  show ?case by simp
next
  case (Cons j js)
  let ?T1 = "ThreeIndex_set T i j 0 (f T j)"
  let ?T2 = "Pijk_k_loop ?T1 i j"
  have j: "1 \<le> j" "j < dims3 T ! 1" "j < dims3 T ! 2" using Cons.prems by simp_all
  have d2: "0 < dims3 T ! 2" using j by simp
  have d1: "dims3 ?T1 ! 1 * dims3 ?T1 ! 2 < 2 ^ 31" "j < dims3 ?T1 ! 1" "j < dims3 ?T1 ! 2"
    using Cons.prems j by simp_all
  have g1: "ThreeIndex_get ?T1 i0 0 0 = ThreeIndex_get T i0 0 0"
    by (rule ThreeIndex_axis_frame [OF Cons.prems(1) j(1,2) _ d2]) simp
  from Pijk_k_loop_inv [OF d1(1) j(1) d1(2,3), of i i0] g1
  have k: "dims3 ?T2 = dims3 T" "ThreeIndex_get ?T2 i0 0 0 = ThreeIndex_get T i0 0 0" by simp_all
  have 2: "dims3 ?T2 ! 1 * dims3 ?T2 ! 2 < 2 ^ 31"
    "\<forall>j\<in>set js. 1 \<le> j \<and> j < dims3 ?T2 ! 1 \<and> j < dims3 ?T2 ! 2"
    using k Cons.prems by simp_all
  from Cons.IH [OF 2] k show ?case by simp
qed

lemma Pijk_j_loop_inv:
  assumes "dims3 T ! 1 * dims3 T ! 2 < 2 ^ 31" "i < dims3 T ! 1" "i < dims3 T ! 2"
  shows "dims3 (Pijk_j_loop T i) = dims3 T \<and>
         ThreeIndex_get (Pijk_j_loop T i) i0 0 0 = ThreeIndex_get T i0 0 0"
  unfolding Pijk_j_loop_def
  by (rule Pijk_j_fold_inv [OF assms(1)]) (use assms(2,3) in simp)

lemma ThreeIndex_axis_get_set:
  "ThreeIndex_get (ThreeIndex_set T i 0 0 v) i0 0 0 = (if i0 = i then v else ThreeIndex_get T i0 0 0)"
  by (simp add: ThreeIndex_get_set ThreeIndex_axis_cell)

lemma Pijk_i_fold_inv:
  assumes "dims3 T ! 1 * dims3 T ! 2 < 2 ^ 31" "distinct is"
    "\<forall>i\<in>set is. i < dims3 T ! 1 \<and> i < dims3 T ! 2"
  shows "dims3 (foldl (\<lambda>values i. Pijk_j_loop (ThreeIndex_set values i 0 0 (f i)) i) T is) = dims3 T \<and>
         ThreeIndex_get (foldl (\<lambda>values i. Pijk_j_loop (ThreeIndex_set values i 0 0 (f i)) i) T is) i0 0 0
           = (if i0 \<in> set is then f i0 else ThreeIndex_get T i0 0 0)"
  using assms
proof (induction "is" arbitrary: T)
  case Nil
  show ?case by simp
next
  case (Cons i "is")
  let ?T1 = "ThreeIndex_set T i 0 0 (f i)"
  let ?T2 = "Pijk_j_loop ?T1 i"
  have d1: "dims3 ?T1 ! 1 * dims3 ?T1 ! 2 < 2 ^ 31" "i < dims3 ?T1 ! 1" "i < dims3 ?T1 ! 2"
    using Cons.prems by simp_all
  from Pijk_j_loop_inv [OF d1, of i0]
  have j: "dims3 ?T2 = dims3 T"
    "ThreeIndex_get ?T2 i0 0 0 = (if i0 = i then f i else ThreeIndex_get T i0 0 0)"
    by (simp_all add: ThreeIndex_axis_get_set)
  have d2: "dims3 ?T2 ! 1 * dims3 ?T2 ! 2 < 2 ^ 31"
    "\<forall>i\<in>set is. i < dims3 ?T2 ! 1 \<and> i < dims3 ?T2 ! 2"
    using j Cons.prems by simp_all
  have "distinct is" "i \<notin> set is" using Cons.prems by simp_all
  with Cons.IH [OF d2(1) _ d2(2)] j show ?case by auto
qed

text \<open>
  Claim C7. In the table built by \<open>AngularIntegral::Pijk(maxI)\<close> (with \<open>maxI \<ge> 0\<close>, so
  that the table has an entry \<open>(0,0,0)\<close>, and with \<open>(maxI + 1)\<^sup>2\<close> below \<open>2\<^sup>3\<^sup>1\<close>, so that the
  \<open>int\<close> arithmetic of \<open>operator()\<close> does not overflow on a table of these extents), the seed
  entry \<open>Pijk(0,0,0)\<close> is \<open>4\<pi>\<close> and every entry \<open>Pijk(i,0,0)\<close> with \<open>1 \<le> i \<le> maxI\<close> is
  \<open>4\<pi>/(2i+1)\<close>: no later write of the two inner loops lands on these cells.
\<close>

theorem Pijk_seed_and_axis:
  assumes "0 \<le> maxI" "(maxI + 1) * (maxI + 1) < 2 ^ 31"
  shows "ThreeIndex_get (Pijk maxI) 0 0 0 = 4 * pi \<and>
         (\<forall>i. 1 \<le> i \<and> i \<le> maxI \<longrightarrow>
            ThreeIndex_get (Pijk maxI) i 0 0 = 4 * pi / (2 * real_of_int i + 1))"
proof -
  let ?T0 = "ThreeIndex_set (ThreeIndex_new (maxI + 1) (maxI + 1) (maxI + 1)) 0 0 0 (4 * pi)"
  have d: "dims3 ?T0 ! 1 * dims3 ?T0 ! 2 < 2 ^ 31"
    "\<forall>i\<in>set [1..maxI]. i < dims3 ?T0 ! 1 \<and> i < dims3 ?T0 ! 2"
    using assms by (simp_all add: ThreeIndex_new_def)
  have P: "Pijk maxI = foldl (\<lambda>values i. Pijk_j_loop
             (ThreeIndex_set values i 0 0 (4 * pi / real_of_int (2 * i + 1))) i) ?T0 [1..maxI]"
    by (simp add: Pijk_def Let_def)
  have g: "ThreeIndex_get (Pijk maxI) i0 0 0 =
      (if i0 \<in> set [1..maxI] then 4 * pi / real_of_int (2 * i0 + 1) else ThreeIndex_get ?T0 i0 0 0)"
    for i0
    unfolding P
    using Pijk_i_fold_inv [OF d(1) _ d(2), of "\<lambda>i. 4 * pi / real_of_int (2 * i + 1)" i0]
    by simp
  have "ThreeIndex_get (Pijk maxI) 0 0 0 = 4 * pi"
    by (simp add: g ThreeIndex_axis_get_set)
  moreover have "ThreeIndex_get (Pijk maxI) i 0 0 = 4 * pi / (2 * real_of_int i + 1)"
    if "1 \<le> i \<and> i \<le> maxI" for i
    using that by (simp add: g)
  ultimately show ?thesis by blast
qed

theorem Pijk_seed_and_axis_witness:
  "ThreeIndex_get (Pijk 2) 0 0 0 = 4 * pi \<and> ThreeIndex_get (Pijk 2) 1 0 0 = 4 * pi / 3 \<and>
   ThreeIndex_get (Pijk 2) 2 0 0 = 4 * pi / 5"
  using Pijk_seed_and_axis [of 2] by simp

section \<open>\<open>RadialIntegral::integrate\<close> stops at the first failure\<close>

lemma integrate_body_calls [simp]:
  "ist_calls (integrate_body gint tolerance intValues l s) =
     ist_calls s @ [(l, fst (gint (ist_grid s)
        (foldl (\<lambda>p i. p(i := Matrix_get intValues l i)) (ist_params s)
                     [grid_start (ist_grid s)..grid_end (ist_grid s)]) tolerance))]"
  by (simp add: integrate_body_def Let_def)











text \<open>
  Claim C9. When \<open>offset\<close> exceeds \<open>maxL\<close> the body of the loop never runs: the output
  vector is all zero, but the flag \<open>test\<close>, declared without an initialiser, is returned
  without ever having been assigned.
\<close>

theorem integrate_flag_unassigned:
  assumes "maxL < offset"
  shows "\<exists>s. integrate gint tolerance params0 maxL gridSize intValues grid offset skip = Some s \<and>
           ist_test s = None \<and> ist_calls s = [] \<and> ist_values s = replicate (nat (maxL + 1)) 0"
  using assms by (simp add: integrate_def Let_def) (subst integrate_loop.simps, simp)

theorem integrate_flag_unassigned_witness:
  "(0::int) < 1 \<and>
   (\<exists>s. integrate wit_gint (1/2) (\<lambda>_. 5) 0 1 wit_intValues wit_grid 1 2 = Some s \<and>
      ist_test s = None \<and> ist_calls s = [] \<and> ist_values s = [0])"
  using integrate_flag_unassigned [of 0 1 wit_gint "1/2" "\<lambda>_. 5" 1 wit_intValues wit_grid 2]
  by simp

section \<open>The window left by \<open>RadialIntegral::buildU\<close>\<close>

lemma buildU_body_x [simp]:
  "grid_x (bu_grid (buildU_body U tolerance l N s i)) = grid_x (bu_grid s)"
  by (simp add: buildU_body_def Let_def)

lemma buildU_body_Utab:
  "bu_Utab (buildU_body U tolerance l N s i) =
     (bu_Utab s)(i := (grid_x (bu_grid s) ! nat i) powi (N + 2) * U (grid_x (bu_grid s) ! nat i) l)"
  by (simp add: buildU_body_def Let_def)

lemma buildU_body_found:
  assumes "v = (grid_x (bu_grid s) ! nat i) powi (N + 2) * U (grid_x (bu_grid s) ! nat i) l"
  shows "bu_foundStart (buildU_body U tolerance l N s i) =
           (if tolerance < v \<and> \<not> bu_foundStart s then True
            else if v < tolerance \<and> bu_foundStart s then False else bu_foundStart s)"
    and "grid_start (bu_grid (buildU_body U tolerance l N s i)) =
           (if tolerance < v \<and> \<not> bu_foundStart s then i else grid_start (bu_grid s))"
    and "grid_end (bu_grid (buildU_body U tolerance l N s i)) =
           (if v < tolerance \<and> bu_foundStart s then i - 1 else grid_end (bu_grid s))"
  using assms by (auto simp add: buildU_body_def Let_def)


lemma buildU_fold_x [simp]:
  "grid_x (bu_grid (foldl (buildU_body U tolerance l N) s is)) = grid_x (bu_grid s)"
  by (induction "is" arbitrary: s) simp_all

lemma buildU_fold_Utab:
  assumes "distinct is"
  shows "bu_Utab (foldl (buildU_body U tolerance l N) s is) i =
           (if i \<in> set is
            then (grid_x (bu_grid s) ! nat i) powi (N + 2) * U (grid_x (bu_grid s) ! nat i) l
            else bu_Utab s i)"
  using assms
proof (induction "is" arbitrary: s)
  case Nil
  show ?case by simp
next
  case (Cons j js)
  then have "distinct js" "j \<notin> set js" by simp_all
  with Cons.IH [of "buildU_body U tolerance l N s j"] show ?case
    by (auto simp add: buildU_body_Utab)
qed

lemma buildU_fold_idle_notfound:
  assumes "\<not> bu_foundStart s"
    and "\<forall>i\<in>set is. \<not> tolerance < (grid_x (bu_grid s) ! nat i) powi (N + 2) * U (grid_x (bu_grid s) ! nat i) l"
  shows "\<not> bu_foundStart (foldl (buildU_body U tolerance l N) s is) \<and>
         grid_start (bu_grid (foldl (buildU_body U tolerance l N) s is)) = grid_start (bu_grid s) \<and>
         grid_end (bu_grid (foldl (buildU_body U tolerance l N) s is)) = grid_end (bu_grid s)"
  using assms
proof (induction "is" arbitrary: s)
  case Nil
  then show ?case by simp
next
  case (Cons j js)
  let ?s = "buildU_body U tolerance l N s j"
  from Cons.prems have nf: "\<not> bu_foundStart ?s" and st: "grid_start (bu_grid ?s) = grid_start (bu_grid s)"
    and en: "grid_end (bu_grid ?s) = grid_end (bu_grid s)"
    by (simp_all add: buildU_body_found [OF refl])
  from Cons.IH [OF nf] Cons.prems(2) st en show ?case by simp
qed

lemma buildU_fold_idle_found:
  assumes "bu_foundStart s"
    and "\<forall>i\<in>set is. \<not> (grid_x (bu_grid s) ! nat i) powi (N + 2) * U (grid_x (bu_grid s) ! nat i) l < tolerance"
  shows "bu_foundStart (foldl (buildU_body U tolerance l N) s is) \<and>
         grid_start (bu_grid (foldl (buildU_body U tolerance l N) s is)) = grid_start (bu_grid s) \<and>
         grid_end (bu_grid (foldl (buildU_body U tolerance l N) s is)) = grid_end (bu_grid s)"
  using assms
proof (induction "is" arbitrary: s)
  case Nil
  then show ?case by simp
next
  case (Cons j js)
  let ?s = "buildU_body U tolerance l N s j"
  from Cons.prems have nf: "bu_foundStart ?s" and st: "grid_start (bu_grid ?s) = grid_start (bu_grid s)"
    and en: "grid_end (bu_grid ?s) = grid_end (bu_grid s)"
    by (simp_all add: buildU_body_found [OF refl])
  from Cons.IH [OF nf] Cons.prems(2) st en show ?case by simp
qed

lemma buildU_Utab:
  assumes "0 \<le> i" "i < grid_N grid"
  shows "fst (buildU U tolerance l N grid Utab) i =
           (grid_x grid ! nat i) powi (N + 2) * U (grid_x grid ! nat i) l"
  using assms by (simp add: buildU_def Let_def buildU_fold_Utab)

lemma buildU_finds_window:
  fixes a e :: int
  assumes se: "0 \<le> a" "a \<le> e" "e + 1 < grid_N grid"
    and exceed: "\<forall>i. 0 \<le> i \<and> i < grid_N grid \<longrightarrow>
       (tolerance < fst (buildU U tolerance l N grid Utab) i \<longleftrightarrow> a \<le> i \<and> i \<le> e)"
    and below: "fst (buildU U tolerance l N grid Utab) (e + 1) < tolerance"
  shows "grid_start (snd (buildU U tolerance l N grid Utab)) = a \<and>
         grid_end (snd (buildU U tolerance l N grid Utab)) = e"
proof -
  let ?f = "\<lambda>i. (grid_x grid ! nat i) powi (N + 2) * U (grid_x grid ! nat i) l"
  let ?B = "buildU_body U tolerance l N"
  let ?s0 = "\<lparr>bu_Utab = Utab, bu_grid = grid, bu_foundStart = False\<rparr>"
  have val: "fst (buildU U tolerance l N grid Utab) i = ?f i" if "0 \<le> i" "i < grid_N grid" for i
    using that by (rule buildU_Utab)
  have ex: "tolerance < ?f i \<longleftrightarrow> a \<le> i \<and> i \<le> e" if "0 \<le> i" "i < grid_N grid" for i
    using exceed that val by simp
  have bel: "?f (e + 1) < tolerance" using below val [of "e + 1"] se by simp
  have split: "[0..grid_N grid - 1] = [0..a - 1] @ a # [a + 1..e] @ (e + 1) # [e + 2..grid_N grid - 1]"
  proof -
    have "[0..grid_N grid - 1] = [0..a - 1] @ a # [a + 1..grid_N grid - 1]"
      using se by (intro upto_split3) simp_all
    moreover have "[a + 1..grid_N grid - 1] = [a + 1..e + 1 - 1] @ (e + 1) # [e + 1 + 1..grid_N grid - 1]"
      using se by (intro upto_split3) simp_all
    ultimately show ?thesis by (simp add: add.commute)
  qed
  define s1 where "s1 = foldl ?B ?s0 [0..a - 1]"
  define s2 where "s2 = ?B s1 a"
  define s3 where "s3 = foldl ?B s2 [a + 1..e]"
  define s4 where "s4 = ?B s3 (e + 1)"
  define s5 where "s5 = foldl ?B s4 [e + 2..grid_N grid - 1]"
  have x1: "grid_x (bu_grid s1) = grid_x grid" by (simp add: s1_def)
  have x2: "grid_x (bu_grid s2) = grid_x grid" by (simp add: s2_def x1)
  have x3: "grid_x (bu_grid s3) = grid_x grid" by (simp add: s3_def x2)
  have x4: "grid_x (bu_grid s4) = grid_x grid" by (simp add: s4_def x3)
  have pre: "\<forall>i\<in>set [0..a - 1]. \<not> tolerance < ?f i"
  proof
    fix i assume "i \<in> set [0..a - 1]"
    then have "0 \<le> i" "i < grid_N grid" "\<not> (a \<le> i \<and> i \<le> e)" using se by simp_all
    with ex [of i] show "\<not> tolerance < ?f i" by simp
  qed
  have post: "\<forall>i\<in>set [e + 2..grid_N grid - 1]. \<not> tolerance < ?f i"
  proof
    fix i assume "i \<in> set [e + 2..grid_N grid - 1]"
    then have "0 \<le> i" "i < grid_N grid" "\<not> (a \<le> i \<and> i \<le> e)" using se by simp_all
    with ex [of i] show "\<not> tolerance < ?f i" by simp
  qed
  have p1: "\<not> bu_foundStart s1"
    unfolding s1_def
    using buildU_fold_idle_notfound [of ?s0 "[0..a - 1]" tolerance N U l] pre by simp
  have p2: "bu_foundStart s2" "grid_start (bu_grid s2) = a"
    unfolding s2_def using p1 ex [of a] se by (simp_all add: buildU_body_found [OF refl] x1)
  have mid: "\<forall>i\<in>set [a + 1..e]. \<not> ?f i < tolerance"
  proof
    fix i assume "i \<in> set [a + 1..e]"
    then have "0 \<le> i" "i < grid_N grid" "a \<le> i \<and> i \<le> e" using se by simp_all
    with ex [of i] show "\<not> ?f i < tolerance" by simp
  qed
  have p3: "bu_foundStart s3" "grid_start (bu_grid s3) = a"
    unfolding s3_def
    using buildU_fold_idle_found [of s2 "[a + 1..e]" N U l tolerance] p2 mid
    by (simp_all add: x2)
  have p4: "\<not> bu_foundStart s4" "grid_start (bu_grid s4) = a" "grid_end (bu_grid s4) = e"
    unfolding s4_def using p3 bel ex [of "e + 1"] se
    by (simp_all add: buildU_body_found [OF refl] x3)
  have p5: "grid_start (bu_grid s5) = a" "grid_end (bu_grid s5) = e"
    unfolding s5_def
    using buildU_fold_idle_notfound [of s4 "[e + 2..grid_N grid - 1]" tolerance N U l] p4 post
    by (simp_all add: x4)
  have "snd (buildU U tolerance l N grid Utab) = bu_grid s5"
    by (simp add: buildU_def Let_def split s1_def s2_def s3_def s4_def s5_def)
  with p5 show ?thesis by simp
qed


lemma fold_zero_params:
  "foldl (\<lambda>p i. p(i := (0::real))) p is j = (if j \<in> set is then 0 else p j)"
  by (induction "is" arbitrary: p) auto

lemma fold_fill_params:
  "j \<notin> set is \<Longrightarrow> foldl (\<lambda>p i. p(i := g i)) p is j = p (j::int)"
  by (induction "is" arbitrary: p) auto

lemma integrate_body_integrands:
  "ist_integrands (integrate_body gint tolerance intValues l s) =
     ist_integrands s @ [ist_params (integrate_body gint tolerance intValues l s)]"
  "ist_params (integrate_body gint tolerance intValues l s) =
     foldl (\<lambda>p i. p(i := Matrix_get intValues l i)) (ist_params s)
       [grid_start (ist_grid s)..grid_end (ist_grid s)]"
  "ist_grid (integrate_body gint tolerance intValues l s) =
     snd (gint (ist_grid s) (ist_params (integrate_body gint tolerance intValues l s)) tolerance)"
  by (simp_all add: integrate_body_def Let_def)

lemma integrate_loop_zero_outside:
  assumes run: "integrate_loop gint tolerance intValues maxL skip l s = Some s'"
    and keep: "\<forall>g p t. grid_start (snd (gint g p t)) = grid_start g \<and>
                       grid_end (snd (gint g p t)) = grid_end g"
    and win: "grid_start (ist_grid s) = a" "grid_end (ist_grid s) = b"
    and par: "\<forall>i. 0 \<le> i \<and> i < gridSize \<and> (i < a \<or> b < i) \<longrightarrow> ist_params s i = 0"
    and old: "\<forall>p\<in>set (ist_integrands s). \<forall>i. 0 \<le> i \<and> i < gridSize \<and> (i < a \<or> b < i) \<longrightarrow> p i = 0"
  shows "\<forall>p\<in>set (ist_integrands s'). \<forall>i. 0 \<le> i \<and> i < gridSize \<and> (i < a \<or> b < i) \<longrightarrow> p i = 0"
  using run keep win par old
proof (induction rule: integrate_loop.raw_induct [rotated 1, consumes 1, case_names step])
  case (step loop gint tolerance intValues maxL skip l s s')
  let ?s = "integrate_body gint tolerance intValues l s"
  show ?case
  proof (cases "l \<le> maxL")
    case False
    with step.hyps have "s' = s" by simp
    with step.prems show ?thesis by simp
  next
    case True
    have par': "\<forall>i. 0 \<le> i \<and> i < gridSize \<and> (i < a \<or> b < i) \<longrightarrow> ist_params ?s i = 0"
      using step.prems(2,3,4) by (auto simp add: integrate_body_integrands(2) fold_fill_params)
    have old': "\<forall>p\<in>set (ist_integrands ?s). \<forall>i. 0 \<le> i \<and> i < gridSize \<and> (i < a \<or> b < i) \<longrightarrow> p i = 0"
      using step.prems(5) par' by (simp add: integrate_body_integrands(1))
    have win': "grid_start (ist_grid ?s) = a" "grid_end (ist_grid ?s) = b"
      using step.prems(1,2,3) by (simp_all add: integrate_body_integrands(3))
    show ?thesis
    proof (cases "ist_test ?s = Some 0")
      case stop: True
      with step.hyps True have "s' = ?s" by simp
      with old' show ?thesis by simp
    next
      case go: False
      with step.hyps True
      have "loop gint tolerance intValues maxL skip (l + skip) ?s = Some s'" by simp
      from step.IH [OF this step.prems(1) win' par' old'] show ?thesis .
    qed
  qed
qed


lemmas buildU_eval = buildU_def buildU_body_def Let_def upto.simps ex_grid3_def power_int_def

lemma buildU_example_step:
  "fst (buildU ex_U_step (1/2) 0 0 ex_grid3 (\<lambda>_. 0)) 0 = 1"
  "fst (buildU ex_U_step (1/2) 0 0 ex_grid3 (\<lambda>_. 0)) 1 = 0"
  "fst (buildU ex_U_step (1/2) 0 0 ex_grid3 (\<lambda>_. 0)) 2 = - 9"
  "snd (buildU ex_U_step (1/2) 0 0 ex_grid3 (\<lambda>_. 0)) = ex_grid3\<lparr>grid_start := 0, grid_end := 0\<rparr>"
  by (simp_all add: buildU_eval ex_U_step_def)

lemma integrate_example_window:
  "\<exists>st. integrate wit_gint (1/2) (\<lambda>_. 5) 0 3 ex_ones (ex_grid3\<lparr>grid_start := 0, grid_end := 0\<rparr>) 0 1
          = Some st \<and> length (ist_integrands st) = 1 \<and> hd (ist_integrands st) 0 = 1"
  by (simp add: integrate_def integrate_loop.simps integrate_body_def wit_gint_def ex_grid3_def
      ex_ones_def Matrix_get_def Let_def upto.simps)

text \<open>
  Claim C4, as amended. After \<open>buildU\<close> the array holds \<open>r^(N+2) * U(r, l)\<close> at every
  abscissa \<open>r\<close> of the grid. When the indices at which this quantity exceeds the tolerance
  are exactly a non-empty range \<open>a..e\<close> that ends before the last abscissa, and the quantity
  at index \<open>e + 1\<close> is strictly below the tolerance, the window the call leaves is
  \<open>start = a\<close>, \<open>end = e\<close>. In a following \<open>integrate\<close> on that grid, with a quadrature
  routine that does not move the window, every parameter array handed to the quadrature is
  zero at each index of \<open>0..gridSize-1\<close> outside the window.
\<close>

theorem buildU_window:
  "(\<forall>i. 0 \<le> i \<and> i < grid_N grid \<longrightarrow>
      fst (buildU U tolerance l N grid Utab) i
        = (grid_x grid ! nat i) powi (N + 2) * U (grid_x grid ! nat i) l) \<and>
   (\<forall>a e. 0 \<le> a \<and> a \<le> e \<and> e + 1 < grid_N grid \<and>
      (\<forall>i. 0 \<le> i \<and> i < grid_N grid \<longrightarrow>
         (tolerance < fst (buildU U tolerance l N grid Utab) i \<longleftrightarrow> a \<le> i \<and> i \<le> e)) \<and>
      fst (buildU U tolerance l N grid Utab) (e + 1) < tolerance \<longrightarrow>
        grid_start (snd (buildU U tolerance l N grid Utab)) = a \<and>
        grid_end (snd (buildU U tolerance l N grid Utab)) = e) \<and>
   (\<forall>st. (\<forall>g p t. grid_start (snd (gint g p t)) = grid_start g \<and>
                  grid_end (snd (gint g p t)) = grid_end g) \<and>
      integrate gint tolerance params0 maxL gridSize intValues
        (snd (buildU U tolerance l N grid Utab)) offset skip = Some st \<longrightarrow>
        (\<forall>p\<in>set (ist_integrands st). \<forall>i. 0 \<le> i \<and> i < gridSize \<and>
           (i < grid_start (snd (buildU U tolerance l N grid Utab)) \<or>
            grid_end (snd (buildU U tolerance l N grid Utab)) < i) \<longrightarrow> p i = 0))"
proof (intro conjI allI impI)
  fix i assume "0 \<le> i \<and> i < grid_N grid"
  then show "fst (buildU U tolerance l N grid Utab) i
        = (grid_x grid ! nat i) powi (N + 2) * U (grid_x grid ! nat i) l"
    by (simp add: buildU_Utab)
next
  fix a e
  assume h: "0 \<le> a \<and> a \<le> e \<and> e + 1 < grid_N grid \<and>
      (\<forall>i. 0 \<le> i \<and> i < grid_N grid \<longrightarrow>
         (tolerance < fst (buildU U tolerance l N grid Utab) i \<longleftrightarrow> a \<le> i \<and> i \<le> e)) \<and>
      fst (buildU U tolerance l N grid Utab) (e + 1) < tolerance"
  then have w: "grid_start (snd (buildU U tolerance l N grid Utab)) = a \<and>
        grid_end (snd (buildU U tolerance l N grid Utab)) = e"
    by (intro buildU_finds_window) simp_all
  from w show "grid_start (snd (buildU U tolerance l N grid Utab)) = a" by simp
  from w show "grid_end (snd (buildU U tolerance l N grid Utab)) = e" by simp
next
  fix st
  let ?g = "snd (buildU U tolerance l N grid Utab)"
  assume h: "(\<forall>g p t. grid_start (snd (gint g p t)) = grid_start g \<and>
                  grid_end (snd (gint g p t)) = grid_end g) \<and>
      integrate gint tolerance params0 maxL gridSize intValues ?g offset skip = Some st"
  let ?p = "foldl (\<lambda>p i. p(i := 0)) (foldl (\<lambda>p i. p(i := 0)) params0 [0..grid_start ?g - 1])
              [grid_end ?g + 1..gridSize - 1]"
  let ?s0 = "\<lparr>ist_params = ?p, ist_grid = ?g, ist_values = replicate (nat (maxL + 1)) 0,
              ist_test = None, ist_calls = [], ist_integrands = []\<rparr>"
  from h have run: "integrate_loop gint tolerance intValues maxL skip offset ?s0 = Some st"
    by (simp add: integrate_def Let_def)
  have par: "\<forall>i. 0 \<le> i \<and> i < gridSize \<and> (i < grid_start ?g \<or> grid_end ?g < i) \<longrightarrow> ist_params ?s0 i = 0"
    by (simp add: fold_zero_params)
  from integrate_loop_zero_outside [OF run _ _ _ par] h
  show "\<forall>p\<in>set (ist_integrands st). \<forall>i. 0 \<le> i \<and> i < gridSize \<and>
           (i < grid_start ?g \<or> grid_end ?g < i) \<longrightarrow> p i = 0"
    by simp
qed

theorem buildU_window_witness:
  "fst (buildU ex_U_step (1/2) 0 0 ex_grid3 (\<lambda>_. 0)) 2 = - 9 \<and>
   grid_start (snd (buildU ex_U_step (1/2) 0 0 ex_grid3 (\<lambda>_. 0))) = 0 \<and>
   grid_end (snd (buildU ex_U_step (1/2) 0 0 ex_grid3 (\<lambda>_. 0))) = 0 \<and>
   (\<exists>st. integrate wit_gint (1/2) (\<lambda>_. 5) 0 3 ex_ones
            (snd (buildU ex_U_step (1/2) 0 0 ex_grid3 (\<lambda>_. 0))) 0 1 = Some st \<and>
         length (ist_integrands st) = 1 \<and> hd (ist_integrands st) 0 = 1 \<and>
         hd (ist_integrands st) 1 = 0 \<and> hd (ist_integrands st) 2 = 0)"
proof -
  let ?b = "buildU ex_U_step (1/2) 0 0 ex_grid3 (\<lambda>_. 0)"
  note inst = buildU_window [of ex_grid3 ex_U_step "1/2" 0 0 "\<lambda>_. 0" wit_gint "\<lambda>_. 5" 0 3 ex_ones 0 1]
  from inst have tab: "\<forall>i. 0 \<le> i \<and> i < grid_N ex_grid3 \<longrightarrow>
      fst ?b i = (grid_x ex_grid3 ! nat i) powi (0 + 2) * ex_U_step (grid_x ex_grid3 ! nat i) 0"
    by blast
  from inst have win: "\<forall>a e. 0 \<le> a \<and> a \<le> e \<and> e + 1 < grid_N ex_grid3 \<and>
      (\<forall>i. 0 \<le> i \<and> i < grid_N ex_grid3 \<longrightarrow> (1/2 < fst ?b i \<longleftrightarrow> a \<le> i \<and> i \<le> e)) \<and>
      fst ?b (e + 1) < 1/2 \<longrightarrow> grid_start (snd ?b) = a \<and> grid_end (snd ?b) = e"
    by blast
  from inst have zero: "\<forall>st. (\<forall>g p t. grid_start (snd (wit_gint g p t)) = grid_start g \<and>
                  grid_end (snd (wit_gint g p t)) = grid_end g) \<and>
      integrate wit_gint (1/2) (\<lambda>_. 5) 0 3 ex_ones (snd ?b) 0 1 = Some st \<longrightarrow>
        (\<forall>p\<in>set (ist_integrands st). \<forall>i. 0 \<le> i \<and> i < 3 \<and>
           (i < grid_start (snd ?b) \<or> grid_end (snd ?b) < i) \<longrightarrow> p i = 0)"
    by blast
  have 1: "fst ?b 2 = - 9"
    using tab [rule_format, of 2] by (simp add: ex_grid3_def ex_U_step_def power_int_def)
  have cases3: "i = 0 \<or> i = 1 \<or> i = 2" if "0 \<le> i \<and> i < grid_N ex_grid3" for i :: int
    using that by (auto simp: ex_grid3_def)
  have ex: "\<forall>i. 0 \<le> i \<and> i < grid_N ex_grid3 \<longrightarrow> (1/2 < fst ?b i \<longleftrightarrow> 0 \<le> i \<and> i \<le> 0)"
  proof (intro allI impI)
    fix i :: int assume "0 \<le> i \<and> i < grid_N ex_grid3"
    from cases3 [OF this] show "1/2 < fst ?b i \<longleftrightarrow> 0 \<le> i \<and> i \<le> 0"
      by (elim disjE) (simp_all add: buildU_example_step)
  qed
  have n3: "(0::int) + 1 < grid_N ex_grid3" by (simp add: ex_grid3_def)
  have below: "fst ?b (0 + 1) < 1/2" by (simp add: buildU_example_step)
  have 2: "grid_start (snd ?b) = 0 \<and> grid_end (snd ?b) = 0"
    by (rule win [rule_format, of 0 0]) (use ex n3 below in blast)
  have keep: "\<forall>g p t. grid_start (snd (wit_gint g p t)) = grid_start g \<and>
                  grid_end (snd (wit_gint g p t)) = grid_end g"
    by (simp add: wit_gint_def)
  from integrate_example_window obtain st
    where st: "integrate wit_gint (1/2) (\<lambda>_. 5) 0 3 ex_ones (snd ?b) 0 1 = Some st"
      and len: "length (ist_integrands st) = 1" and hd0: "hd (ist_integrands st) 0 = 1"
    by (auto simp: buildU_example_step)
  from len have mem: "hd (ist_integrands st) \<in> set (ist_integrands st)"
    by (cases "ist_integrands st") simp_all
  from zero [rule_format, OF conjI [OF keep st], OF mem] 2
  have "hd (ist_integrands st) 1 = 0" "hd (ist_integrands st) 2 = 0" by simp_all
  with 1 2 st len hd0 show ?thesis by blast
qed

text \<open>
  The window is not in general the set of indices at which the quantity exceeds the
  tolerance. On the grid 1, 2, 3 with \<open>N = 0\<close>: for \<open>U(r) = (r - 2)\<^sup>2\<close> the quantity is
  1, 0, 9 and the window left is \<open>start = 2\<close>, \<open>end = 0\<close>, which misses index 0; for
  \<open>U(r) = -1\<close> nothing exceeds the tolerance and the window stays as the caller set it,
  with index 0 inside; for \<open>U(r) = (3 - r)/r\<^sup>2\<close> and tolerance 1 the quantity is 2, 1, 0
  and index 1, where it equals the tolerance, is inside the window.
\<close>

theorem buildU_window_counterexample:
  "(1/2 < fst (buildU ex_U_well (1/2) 0 0 ex_grid3 (\<lambda>_. 0)) 0 \<and>
    \<not> (grid_start (snd (buildU ex_U_well (1/2) 0 0 ex_grid3 (\<lambda>_. 0))) \<le> 0 \<and>
       0 \<le> grid_end (snd (buildU ex_U_well (1/2) 0 0 ex_grid3 (\<lambda>_. 0))))) \<and>
   (\<not> 1/2 < fst (buildU ex_U_negative (1/2) 0 0 ex_grid3 (\<lambda>_. 0)) 0 \<and>
    grid_start (snd (buildU ex_U_negative (1/2) 0 0 ex_grid3 (\<lambda>_. 0))) \<le> 0 \<and>
    0 \<le> grid_end (snd (buildU ex_U_negative (1/2) 0 0 ex_grid3 (\<lambda>_. 0)))) \<and>
   (\<not> 1 < fst (buildU ex_U_ramp 1 0 0 ex_grid3 (\<lambda>_. 0)) 1 \<and>
    grid_start (snd (buildU ex_U_ramp 1 0 0 ex_grid3 (\<lambda>_. 0))) \<le> 1 \<and>
    1 \<le> grid_end (snd (buildU ex_U_ramp 1 0 0 ex_grid3 (\<lambda>_. 0))))"
  by (simp add: buildU_eval ex_U_well_def ex_U_negative_def ex_U_ramp_def)

section \<open>Symmetry of the Omega table\<close>

lemma SevenIndex_dims_put [simp]: "dims7 (SevenIndex_put T X v) = dims7 T"
  by (cases X) (simp add: SevenIndex_set_def)

lemma exchange7_exchange7 [simp]: "exchange7 (exchange7 X) = X"
  by (cases X) simp

lemma exchange7_either:
  "(exchange7 X = exchange7 c \<or> exchange7 X = c) \<longleftrightarrow> (X = exchange7 c \<or> X = c)"
  by (metis exchange7_exchange7)

lemma SevenIndex_inside_exchange7:
  assumes "D ! 3 = D ! 5" "D ! 4 = D ! 6"
  shows "SevenIndex_inside D (exchange7 X) = SevenIndex_inside D X"
  using assms by (cases X) auto

lemma SevenIndex_at_put:
  assumes "SevenIndex_inside (dims7 T) X" "SevenIndex_inside (dims7 T) Y"
    and F: "dims7 T ! 0 * dims7 T ! 1 * dims7 T ! 2 < 2 ^ 31"
      "dims7 T ! 3 * dims7 T ! 4 * dims7 T ! 5 * dims7 T ! 6 < 2 ^ 31"
  shows "SevenIndex_at (SevenIndex_put T X v) Y = (if Y = X then v else SevenIndex_at T Y)"
proof -
  obtain k l m a b c d where X: "X = (k, l, m, a, b, c, d)" by (cases X)
  obtain k' l' m' a' b' c' d' where Y: "Y = (k', l', m', a', b', c', d')" by (cases Y)
  from assms(1,2) have r: "SevenIndex_in_range T k l m a b c d" "SevenIndex_in_range T k' l' m' a' b' c' d'"
    by (simp_all add: X Y SevenIndex_in_range_def)
  have "SevenIndex_cell T k' l' m' a' b' c' d' = SevenIndex_cell T k l m a b c d \<longleftrightarrow> Y = X"
    using SevenIndex_cell_inj [OF r(2) r(1) F] by (auto simp: X Y)
  then show ?thesis by (simp add: X Y SevenIndex_get_set)
qed

lemma SevenIndex_at_put4:
  assumes dT: "dims7 T = D"
    and F: "D ! 0 * D ! 1 * D ! 2 < 2 ^ 31" "D ! 3 * D ! 4 * D ! 5 * D ! 6 < 2 ^ 31"
    and c: "SevenIndex_inside D c1" "SevenIndex_inside D c2" "SevenIndex_inside D c3"
      "SevenIndex_inside D c4" "SevenIndex_inside D Y"
  shows "SevenIndex_at (SevenIndex_put (SevenIndex_put (SevenIndex_put (SevenIndex_put T c1 p) c2 p)
              c3 q) c4 q) Y =
      (if Y = c4 \<or> Y = c3 then q else if Y = c2 \<or> Y = c1 then p else SevenIndex_at T Y)"
proof -
  let ?T1 = "SevenIndex_put T c1 p"
  let ?T2 = "SevenIndex_put ?T1 c2 p"
  let ?T3 = "SevenIndex_put ?T2 c3 q"
  have 1: "SevenIndex_at ?T1 Y = (if Y = c1 then p else SevenIndex_at T Y)"
    by (rule SevenIndex_at_put) (use dT c F in simp_all)
  have 2: "SevenIndex_at ?T2 Y = (if Y = c2 then p else SevenIndex_at ?T1 Y)"
    by (rule SevenIndex_at_put) (use dT c F in simp_all)
  have 3: "SevenIndex_at ?T3 Y = (if Y = c3 then q else SevenIndex_at ?T2 Y)"
    by (rule SevenIndex_at_put) (use dT c F in simp_all)
  have 4: "SevenIndex_at (SevenIndex_put ?T3 c4 q) Y = (if Y = c4 then q else SevenIndex_at ?T3 Y)"
    by (rule SevenIndex_at_put) (use dT c F in simp_all)
  show ?thesis unfolding 4 3 2 1 by simp
qed


lemma makeOmega_stores_symmetric:
  assumes D: "D ! 3 = D ! 5" "D ! 4 = D ! 6"
    and Q: "symmetric_on D S T"
    and c: "SevenIndex_inside D c1" "SevenIndex_inside D c3"
  shows "symmetric_on D (S \<union> {c1, exchange7 c1, c3, exchange7 c3})
           (SevenIndex_put (SevenIndex_put (SevenIndex_put (SevenIndex_put T c1 p) (exchange7 c1) p)
              c3 q) (exchange7 c3) q)"
proof -
  from Q have dT: "dims7 T = D"
    and F: "D ! 0 * D ! 1 * D ! 2 < 2 ^ 31" "D ! 3 * D ! 4 * D ! 5 * D ! 6 < 2 ^ 31"
    by (simp_all add: symmetric_on_def)
  have c': "SevenIndex_inside D (exchange7 c1)" "SevenIndex_inside D (exchange7 c3)"
    using c by (simp_all add: SevenIndex_inside_exchange7 [OF D])
  have old: "exchange7 X \<in> S \<and> SevenIndex_inside D X \<and> SevenIndex_at T X = SevenIndex_at T (exchange7 X)"
    if "X \<in> S" for X
    using that Q unfolding symmetric_on_def by blast
  have inX: "SevenIndex_inside D X" if X: "X \<in> S \<union> {c1, exchange7 c1, c3, exchange7 c3}" for X
    proof (cases "X \<in> S")
      case True
      then show ?thesis using old by blast
    next
      case False
      with X have "X = c1 \<or> X = exchange7 c1 \<or> X = c3 \<or> X = exchange7 c3" by blast
      then show ?thesis using c c' by blast
    qed
  have mem: "exchange7 X \<in> S \<union> {c1, exchange7 c1, c3, exchange7 c3}"
    if X: "X \<in> S \<union> {c1, exchange7 c1, c3, exchange7 c3}" for X
    proof (cases "X \<in> S")
      case True
      then show ?thesis using old by blast
    next
      case False
      with X have "X = c1 \<or> X = exchange7 c1 \<or> X = c3 \<or> X = exchange7 c3" by blast
      then show ?thesis by (elim disjE) simp_all
    qed
  let ?T4 = "SevenIndex_put (SevenIndex_put (SevenIndex_put (SevenIndex_put T c1 p) (exchange7 c1) p)
              c3 q) (exchange7 c3) q"
  have eq: "SevenIndex_at ?T4 X = SevenIndex_at ?T4 (exchange7 X)"
    if X: "X \<in> S \<union> {c1, exchange7 c1, c3, exchange7 c3}" for X
  proof -
    have inX': "SevenIndex_inside D (exchange7 X)"
      using inX [OF X] by (simp add: SevenIndex_inside_exchange7 [OF D])
    have a1: "SevenIndex_at ?T4 X =
        (if X = exchange7 c3 \<or> X = c3 then q
         else if X = exchange7 c1 \<or> X = c1 then p else SevenIndex_at T X)"
      by (rule SevenIndex_at_put4 [OF dT F c(1) c'(1) c(2) c'(2) inX [OF X]])
    have a2: "SevenIndex_at ?T4 (exchange7 X) =
        (if exchange7 X = exchange7 c3 \<or> exchange7 X = c3 then q
         else if exchange7 X = exchange7 c1 \<or> exchange7 X = c1 then p
         else SevenIndex_at T (exchange7 X))"
      by (rule SevenIndex_at_put4 [OF dT F c(1) c'(1) c(2) c'(2) inX'])
    have a3: "SevenIndex_at ?T4 (exchange7 X) =
        (if X = exchange7 c3 \<or> X = c3 then q
         else if X = exchange7 c1 \<or> X = c1 then p
         else SevenIndex_at T (exchange7 X))"
      using a2 by (simp only: exchange7_either)
    show ?thesis
    proof (cases "X = exchange7 c3 \<or> X = c3")
      case True
      then show ?thesis by (simp only: a1 a3 if_True)
    next
      case n3: False
      show ?thesis
      proof (cases "X = exchange7 c1 \<or> X = c1")
        case True
        with n3 show ?thesis by (simp only: a1 a3 if_True if_False)
      next
        case False
        with n3 X have "X \<in> S" by blast
        with old have "SevenIndex_at T X = SevenIndex_at T (exchange7 X)" by blast
        with n3 False show ?thesis by (simp only: a1 a3 if_False)
      qed
    qed
  qed
  have d4: "dims7 ?T4 = D" by (simp only: SevenIndex_dims_put dT)
  show ?thesis
    unfolding symmetric_on_def
  proof (intro conjI ballI)
    show "dims7 ?T4 = D" by (rule d4)
  next
    show "D ! 0 * D ! 1 * D ! 2 < 2 ^ 31" by (rule F(1))
  next
    show "D ! 3 * D ! 4 * D ! 5 * D ! 6 < 2 ^ 31" by (rule F(2))
  next
    fix X assume "X \<in> S \<union> {c1, exchange7 c1, c3, exchange7 c3}"
    then show "exchange7 X \<in> S \<union> {c1, exchange7 c1, c3, exchange7 c3}" by (rule mem)
  next
    fix X assume "X \<in> S \<union> {c1, exchange7 c1, c3, exchange7 c3}"
    then show "SevenIndex_inside D X" by (rule inX)
  next
    fix X assume "X \<in> S \<union> {c1, exchange7 c1, c3, exchange7 c3}"
    then show "SevenIndex_at ?T4 X = SevenIndex_at ?T4 (exchange7 X)" by (rule eq)
  qed
qed


lemma foldl_symmetric_on:
  assumes step: "\<And>T S x. x \<in> set xs \<Longrightarrow> symmetric_on D S T \<Longrightarrow> symmetric_on D (S \<union> C x) (f T x)"
    and init: "symmetric_on D S T"
  shows "symmetric_on D (S \<union> (\<Union>x\<in>set xs. C x)) (foldl f T xs)"
  using assms
proof (induction xs arbitrary: S T)
  case Nil
  then show ?case by simp
next
  case (Cons x xs)
  have 1: "symmetric_on D (S \<union> C x) (f T x)"
    by (rule Cons.prems(1)) (simp_all add: Cons.prems(2))
  have "symmetric_on D ((S \<union> C x) \<union> (\<Union>y\<in>set xs. C y)) (foldl f (f T x) xs)"
    by (rule Cons.IH [OF _ 1]) (simp add: Cons.prems(1))
  then show ?case by (simp add: Un_assoc)
qed


lemma makeOmega_mu_symmetric:
  assumes D: "D = [LB + 1, LB + 1, LB + 1, lamDim + 1, 2 * lamDim + 1 + 1, lamDim + 1, 2 * lamDim + 1 + 1]"
    and r: "0 \<le> k" "k \<le> LB" "0 \<le> l" "l \<le> LB" "0 \<le> m" "m \<le> LB"
      "0 \<le> rho" "rho \<le> lamDim" "- rho \<le> sigma" "sigma \<le> rho" "0 \<le> lam" "lam \<le> rho"
      "0 \<le> mu" "mu \<le> lam"
    and Q: "symmetric_on D S T"
  shows "symmetric_on D (S \<union> makeOmega_cells k l m rho sigma lam mu)
           (makeOmega_mu U W k l m rho sigma lam T mu)"
proof -
  let ?c1 = "(k, l, m, rho, sigma + rho, lam, lam + mu)"
  let ?c3 = "(k, l, m, rho, sigma + rho, lam, lam - mu)"
  have D35: "D ! 3 = D ! 5" "D ! 4 = D ! 6" by (simp_all add: D)
  have in1: "SevenIndex_inside D ?c1" using r by (simp add: D)
  have in3: "SevenIndex_inside D ?c3" using r by (simp add: D)
  have cells: "makeOmega_cells k l m rho sigma lam mu = {?c1, exchange7 ?c1, ?c3, exchange7 ?c3}"
    by (simp add: makeOmega_cells_def)
  have run: "makeOmega_mu U W k l m rho sigma lam T mu =
      SevenIndex_put (SevenIndex_put (SevenIndex_put (SevenIndex_put T ?c1 p) (exchange7 ?c1) p)
         ?c3 q) (exchange7 ?c3) q"
    if "p = fst (makeOmega_sum U W k l m rho sigma lam mu)"
      "q = (if mu = 0 then p else snd (makeOmega_sum U W k l m rho sigma lam mu))" for p q
    using that by (simp add: makeOmega_mu_def Let_def)
  show ?thesis
    unfolding cells run [OF refl refl]
    by (rule makeOmega_stores_symmetric [OF D35 Q in1 in3])
qed

lemma makeOmega_lam_symmetric:
  assumes D: "D = [LB + 1, LB + 1, LB + 1, lamDim + 1, 2 * lamDim + 1 + 1, lamDim + 1, 2 * lamDim + 1 + 1]"
    and r: "0 \<le> k" "k \<le> LB" "0 \<le> l" "l \<le> LB" "0 \<le> m" "m \<le> LB"
      "0 \<le> rho" "rho \<le> lamDim" "- rho \<le> sigma" "sigma \<le> rho" "0 \<le> lam" "lam \<le> rho"
    and Q: "symmetric_on D S T"
  shows "symmetric_on D (S \<union> (\<Union>mu\<in>set [0..lam]. makeOmega_cells k l m rho sigma lam mu))
           (makeOmega_lam U W k l m rho sigma T lam)"
  unfolding makeOmega_lam_def
proof (rule foldl_symmetric_on [OF _ Q])
  fix T' S' mu
  assume "mu \<in> set [0..lam]" and Q': "symmetric_on D S' T'"
  then have "0 \<le> mu" "mu \<le> lam" by simp_all
  from makeOmega_mu_symmetric [OF D r this Q']
  show "symmetric_on D (S' \<union> makeOmega_cells k l m rho sigma lam mu)
          (makeOmega_mu U W k l m rho sigma lam T' mu)" .
qed

lemma makeOmega_sigma_symmetric:
  assumes D: "D = [LB + 1, LB + 1, LB + 1, lamDim + 1, 2 * lamDim + 1 + 1, lamDim + 1, 2 * lamDim + 1 + 1]"
    and r: "0 \<le> k" "k \<le> LB" "0 \<le> l" "l \<le> LB" "0 \<le> m" "m \<le> LB"
      "0 \<le> rho" "rho \<le> lamDim" "- rho \<le> sigma" "sigma \<le> rho"
    and Q: "symmetric_on D S T"
  shows "symmetric_on D
           (S \<union> (\<Union>lam\<in>set [0..rho]. \<Union>mu\<in>set [0..lam]. makeOmega_cells k l m rho sigma lam mu))
           (makeOmega_sigma U W k l m rho T sigma)"
  unfolding makeOmega_sigma_def
proof (rule foldl_symmetric_on [OF _ Q])
  fix T' S' lam
  assume "lam \<in> set [0..rho]" and Q': "symmetric_on D S' T'"
  then have "0 \<le> lam" "lam \<le> rho" by simp_all
  from makeOmega_lam_symmetric [OF D r this Q']
  show "symmetric_on D (S' \<union> (\<Union>mu\<in>set [0..lam]. makeOmega_cells k l m rho sigma lam mu))
          (makeOmega_lam U W k l m rho sigma T' lam)" .
qed

lemma makeOmega_rho_symmetric:
  assumes D: "D = [LB + 1, LB + 1, LB + 1, lamDim + 1, 2 * lamDim + 1 + 1, lamDim + 1, 2 * lamDim + 1 + 1]"
    and r: "0 \<le> k" "k \<le> LB" "0 \<le> l" "l \<le> LB" "0 \<le> m" "m \<le> LB"
      "0 \<le> rho" "rho \<le> lamDim"
    and Q: "symmetric_on D S T"
  shows "symmetric_on D
           (S \<union> (\<Union>sigma\<in>set [- rho..rho]. \<Union>lam\<in>set [0..rho]. \<Union>mu\<in>set [0..lam].
                   makeOmega_cells k l m rho sigma lam mu))
           (makeOmega_rho U W k l m T rho)"
  unfolding makeOmega_rho_def
proof (rule foldl_symmetric_on [OF _ Q])
  fix T' S' sigma
  assume "sigma \<in> set [- rho..rho]" and Q': "symmetric_on D S' T'"
  then have "- rho \<le> sigma" "sigma \<le> rho" by simp_all
  from makeOmega_sigma_symmetric [OF D r this Q']
  show "symmetric_on D
          (S' \<union> (\<Union>lam\<in>set [0..rho]. \<Union>mu\<in>set [0..lam]. makeOmega_cells k l m rho sigma lam mu))
          (makeOmega_sigma U W k l m rho T' sigma)" .
qed

lemma makeOmega_m_symmetric:
  assumes D: "D = [LB + 1, LB + 1, LB + 1, lamDim + 1, 2 * lamDim + 1 + 1, lamDim + 1, 2 * lamDim + 1 + 1]"
    and r: "0 \<le> k" "k \<le> LB" "0 \<le> l" "l \<le> LB" "0 \<le> m" "m \<le> LB"
    and Q: "symmetric_on D S T"
  shows "symmetric_on D
           (S \<union> (\<Union>rho\<in>set [0..lamDim]. \<Union>sigma\<in>set [- rho..rho]. \<Union>lam\<in>set [0..rho].
                   \<Union>mu\<in>set [0..lam]. makeOmega_cells k l m rho sigma lam mu))
           (makeOmega_m U W lamDim k l T m)"
  unfolding makeOmega_m_def
proof (rule foldl_symmetric_on [OF _ Q])
  fix T' S' rho
  assume "rho \<in> set [0..lamDim]" and Q': "symmetric_on D S' T'"
  then have "0 \<le> rho" "rho \<le> lamDim" by simp_all
  from makeOmega_rho_symmetric [OF D r this Q']
  show "symmetric_on D
          (S' \<union> (\<Union>sigma\<in>set [- rho..rho]. \<Union>lam\<in>set [0..rho]. \<Union>mu\<in>set [0..lam].
                   makeOmega_cells k l m rho sigma lam mu))
          (makeOmega_rho U W k l m T' rho)" .
qed

lemma makeOmega_l_symmetric:
  assumes D: "D = [LB + 1, LB + 1, LB + 1, lamDim + 1, 2 * lamDim + 1 + 1, lamDim + 1, 2 * lamDim + 1 + 1]"
    and r: "0 \<le> k" "k \<le> LB" "0 \<le> l" "l \<le> LB"
    and Q: "symmetric_on D S T"
  shows "symmetric_on D
           (S \<union> (\<Union>m\<in>set [0..LB]. \<Union>rho\<in>set [0..lamDim]. \<Union>sigma\<in>set [- rho..rho].
                   \<Union>lam\<in>set [0..rho]. \<Union>mu\<in>set [0..lam]. makeOmega_cells k l m rho sigma lam mu))
           (makeOmega_l U W LB lamDim k T l)"
  unfolding makeOmega_l_def
proof (rule foldl_symmetric_on [OF _ Q])
  fix T' S' m
  assume "m \<in> set [0..LB]" and Q': "symmetric_on D S' T'"
  then have "0 \<le> m" "m \<le> LB" by simp_all
  from makeOmega_m_symmetric [OF D r this Q']
  show "symmetric_on D
          (S' \<union> (\<Union>rho\<in>set [0..lamDim]. \<Union>sigma\<in>set [- rho..rho]. \<Union>lam\<in>set [0..rho].
                   \<Union>mu\<in>set [0..lam]. makeOmega_cells k l m rho sigma lam mu))
          (makeOmega_m U W lamDim k l T' m)" .
qed

lemma makeOmega_k_symmetric:
  assumes D: "D = [LB + 1, LB + 1, LB + 1, lamDim + 1, 2 * lamDim + 1 + 1, lamDim + 1, 2 * lamDim + 1 + 1]"
    and r: "0 \<le> k" "k \<le> LB"
    and Q: "symmetric_on D S T"
  shows "symmetric_on D
           (S \<union> (\<Union>l\<in>set [0..LB]. \<Union>m\<in>set [0..LB]. \<Union>rho\<in>set [0..lamDim].
                   \<Union>sigma\<in>set [- rho..rho]. \<Union>lam\<in>set [0..rho]. \<Union>mu\<in>set [0..lam].
                   makeOmega_cells k l m rho sigma lam mu))
           (makeOmega_k U W LB lamDim T k)"
  unfolding makeOmega_k_def
proof (rule foldl_symmetric_on [OF _ Q])
  fix T' S' l
  assume "l \<in> set [0..LB]" and Q': "symmetric_on D S' T'"
  then have "0 \<le> l" "l \<le> LB" by simp_all
  from makeOmega_l_symmetric [OF D r this Q']
  show "symmetric_on D
          (S' \<union> (\<Union>m\<in>set [0..LB]. \<Union>rho\<in>set [0..lamDim]. \<Union>sigma\<in>set [- rho..rho].
                   \<Union>lam\<in>set [0..rho]. \<Union>mu\<in>set [0..lam]. makeOmega_cells k l m rho sigma lam mu))
          (makeOmega_l U W LB lamDim k T' l)" .
qed

lemma makeOmega_loops_symmetric:
  assumes D: "D = [LB + 1, LB + 1, LB + 1, lamDim + 1, 2 * lamDim + 1 + 1, lamDim + 1, 2 * lamDim + 1 + 1]"
    and T: "dims7 T = D"
    and F: "D ! 0 * D ! 1 * D ! 2 < 2 ^ 31" "D ! 3 * D ! 4 * D ! 5 * D ! 6 < 2 ^ 31"
  shows "symmetric_on D
           (\<Union>k\<in>set [0..LB]. \<Union>l\<in>set [0..LB]. \<Union>m\<in>set [0..LB]. \<Union>rho\<in>set [0..lamDim].
                   \<Union>sigma\<in>set [- rho..rho]. \<Union>lam\<in>set [0..rho]. \<Union>mu\<in>set [0..lam].
                   makeOmega_cells k l m rho sigma lam mu)
           (foldl (makeOmega_k U W LB lamDim) T [0..LB])"
proof -
  have Q: "symmetric_on D {} T" using F by (simp add: symmetric_on_def T)
  have "symmetric_on D
           ({} \<union> (\<Union>k\<in>set [0..LB]. \<Union>l\<in>set [0..LB]. \<Union>m\<in>set [0..LB]. \<Union>rho\<in>set [0..lamDim].
                   \<Union>sigma\<in>set [- rho..rho]. \<Union>lam\<in>set [0..rho]. \<Union>mu\<in>set [0..lam].
                   makeOmega_cells k l m rho sigma lam mu))
           (foldl (makeOmega_k U W LB lamDim) T [0..LB])"
  proof (rule foldl_symmetric_on [OF _ Q])
    fix T' S' k
    assume "k \<in> set [0..LB]" and Q': "symmetric_on D S' T'"
    then have "0 \<le> k" "k \<le> LB" by simp_all
    from makeOmega_k_symmetric [OF D this Q']
    show "symmetric_on D
          (S' \<union> (\<Union>l\<in>set [0..LB]. \<Union>m\<in>set [0..LB]. \<Union>rho\<in>set [0..lamDim].
                   \<Union>sigma\<in>set [- rho..rho]. \<Union>lam\<in>set [0..rho]. \<Union>mu\<in>set [0..lam].
                   makeOmega_cells k l m rho sigma lam mu))
          (makeOmega_k U W LB lamDim T' k)" .
  qed
  then show ?thesis by simp
qed


lemma makeOmega_covers:
  assumes r: "0 \<le> k" "k \<le> LB" "0 \<le> l" "l \<le> LB" "0 \<le> m" "m \<le> LB"
      "0 \<le> rho" "rho \<le> lamDim" "- rho \<le> sigma" "sigma \<le> rho"
      "0 \<le> lam" "lam \<le> lamDim" "- lam \<le> mu" "mu \<le> lam"
  shows "(k, l, m, rho, rho + sigma, lam, lam + mu) \<in>
           (\<Union>k\<in>set [0..LB]. \<Union>l\<in>set [0..LB]. \<Union>m\<in>set [0..LB]. \<Union>rho\<in>set [0..lamDim].
                   \<Union>sigma\<in>set [- rho..rho]. \<Union>lam\<in>set [0..rho]. \<Union>mu\<in>set [0..lam].
                   makeOmega_cells k l m rho sigma lam mu)"
proof (cases "lam \<le> rho")
  case True
  have c: "(k, l, m, rho, rho + sigma, lam, lam + mu) \<in> makeOmega_cells k l m rho sigma lam \<bar>mu\<bar>"
    by (cases "0 \<le> mu") (simp_all add: makeOmega_cells_def add.commute)
  have i: "k \<in> set [0..LB]" "l \<in> set [0..LB]" "m \<in> set [0..LB]" "rho \<in> set [0..lamDim]"
    "sigma \<in> set [- rho..rho]" "lam \<in> set [0..rho]" "\<bar>mu\<bar> \<in> set [0..lam]"
    using r True by simp_all
  show ?thesis
    by (rule UN_I [OF i(1)], rule UN_I [OF i(2)], rule UN_I [OF i(3)], rule UN_I [OF i(4)],
        rule UN_I [OF i(5)], rule UN_I [OF i(6)], rule UN_I [OF i(7)], rule c)
next
  case False
  have c: "(k, l, m, rho, rho + sigma, lam, lam + mu) \<in> makeOmega_cells k l m lam mu rho \<bar>sigma\<bar>"
    by (cases "0 \<le> sigma") (simp_all add: makeOmega_cells_def add.commute)
  have i: "k \<in> set [0..LB]" "l \<in> set [0..LB]" "m \<in> set [0..LB]" "lam \<in> set [0..lamDim]"
    "mu \<in> set [- lam..lam]" "rho \<in> set [0..lam]" "\<bar>sigma\<bar> \<in> set [0..rho]"
    using r False by simp_all
  show ?thesis
    by (rule UN_I [OF i(1)], rule UN_I [OF i(2)], rule UN_I [OF i(3)], rule UN_I [OF i(4)],
        rule UN_I [OF i(5)], rule UN_I [OF i(6)], rule UN_I [OF i(7)], rule c)
qed

lemma symmetric_onD:
  assumes "symmetric_on D S T" "X \<in> S"
  shows "SevenIndex_at T X = SevenIndex_at T (exchange7 X)"
  using assms unfolding symmetric_on_def by (elim conjE) (drule (1) bspec, simp)


lemma makeOmega_symmetric:
  assumes "0 \<le> k" "k \<le> ang_LB A" "0 \<le> l" "l \<le> ang_LB A" "0 \<le> m" "m \<le> ang_LB A"
    and "0 \<le> rho" "rho \<le> ang_LB A + ang_LE A" "- rho \<le> sigma" "sigma \<le> rho"
    and "0 \<le> lam" "lam \<le> ang_LB A + ang_LE A" "- lam \<le> mu" "mu \<le> lam"
    and F: "Omega_fits (ang_LB A) (ang_LE A)"
  shows "getIntegral7 (makeOmega A U) k l m rho sigma lam mu
           = getIntegral7 (makeOmega A U) k l m lam mu rho sigma"
proof -
  define LB where "LB = ang_LB A"
  define lamDim where "lamDim = ang_LE A + LB"
  define D where "D = [LB + 1, LB + 1, LB + 1, lamDim + 1, 2 * lamDim + 1 + 1, lamDim + 1, 2 * lamDim + 1 + 1]"
  define T0 where "T0 = SevenIndex_new (LB + 1) (LB + 1) (LB + 1) (lamDim + 1) (2 * lamDim + 1 + 1)
                     (lamDim + 1) (2 * lamDim + 1 + 1)"
  define T where "T = foldl (makeOmega_k U (ang_W A) LB lamDim) T0 [0..LB]"
  have om: "ang_omega (makeOmega A U) = T"
    by (simp add: makeOmega_def Let_def T_def T0_def lamDim_def LB_def)
  have d0: "dims7 T0 = D" by (simp add: T0_def D_def SevenIndex_new_def)
  have DF: "D ! 0 * D ! 1 * D ! 2 < 2 ^ 31" "D ! 3 * D ! 4 * D ! 5 * D ! 6 < 2 ^ 31"
    using F by (simp_all add: D_def Omega_fits_def LB_def lamDim_def add.commute)
  have sym: "symmetric_on D
           (\<Union>k\<in>set [0..LB]. \<Union>l\<in>set [0..LB]. \<Union>m\<in>set [0..LB]. \<Union>rho\<in>set [0..lamDim].
                   \<Union>sigma\<in>set [- rho..rho]. \<Union>lam\<in>set [0..rho]. \<Union>mu\<in>set [0..lam].
                   makeOmega_cells k l m rho sigma lam mu) T"
    unfolding T_def by (rule makeOmega_loops_symmetric [OF D_def d0 DF])
  have r: "0 \<le> k" "k \<le> LB" "0 \<le> l" "l \<le> LB" "0 \<le> m" "m \<le> LB"
      "0 \<le> rho" "rho \<le> lamDim" "- rho \<le> sigma" "sigma \<le> rho"
      "0 \<le> lam" "lam \<le> lamDim" "- lam \<le> mu" "mu \<le> lam"
    using assms by (simp_all add: LB_def lamDim_def)
  have "SevenIndex_at T (k, l, m, rho, rho + sigma, lam, lam + mu)
          = SevenIndex_at T (exchange7 (k, l, m, rho, rho + sigma, lam, lam + mu))"
    by (rule symmetric_onD [OF sym makeOmega_covers [OF r]])
  then have "SevenIndex_get T k l m rho (rho + sigma) lam (lam + mu)
          = SevenIndex_get T k l m lam (lam + mu) rho (rho + sigma)"
    by (simp only: SevenIndex_at.simps exchange7.simps)
  then show ?thesis
    by (simp only: getIntegral7_def om)
qed

section \<open>The entries of the shell-pair matrix of \<open>ECPIntegral::type1\<close>\<close>

lemma Matrix_add_to_zero [simp]: "Matrix_add_to M r c 0 = M"
  by (simp add: Matrix_add_to_def Matrix_set_def Matrix_get_def)

lemma Matrix_add_to_add [simp]:
  "Matrix_add_to (Matrix_add_to M r c v) r c w = Matrix_add_to M r c (v + w)"
  by (simp add: Matrix_add_to_def Matrix_set_def Matrix_get_def add.assoc)

lemma foldl_Matrix_add_to:
  assumes "\<And>M x. x \<in> set xs \<Longrightarrow> g M x = Matrix_add_to M r c (h x)"
  shows "foldl g M xs = Matrix_add_to M r c (sum_list (map h xs))"
  using assms
proof (induction xs arbitrary: M)
  case Nil
  show ?case by simp
next
  case (Cons x xs)
  have "foldl g (g M x) xs = Matrix_add_to (g M x) r c (sum_list (map h xs))"
    by (rule Cons.IH) (simp add: Cons.prems)
  then show ?case by (simp add: Cons.prems)
qed

lemma sum_list_upto: "sum_list (map f [a..b]) = sum f {a..b}"
  by (simp add: sum_list_distinct_conv_sum_set)

lemma range2_set: "set (range2 a b) = {x. a \<le> x \<and> x \<le> b \<and> even (x - a)}"
proof (induction a b rule: range2.induct)
  case (1 a b)
  show ?case
  proof (cases "a \<le> b")
    case False
    then show ?thesis by (subst range2.simps) auto
  next
    case True
    have "{x. a \<le> x \<and> x \<le> b \<and> even (x - a)} = insert a {x. a + 2 \<le> x \<and> x \<le> b \<and> even (x - (a + 2))}"
    proof (intro set_eqI iffI)
      fix x assume "x \<in> {x. a \<le> x \<and> x \<le> b \<and> even (x - a)}"
      then have x: "a \<le> x" "x \<le> b" "even (x - a)" by simp_all
      show "x \<in> insert a {x. a + 2 \<le> x \<and> x \<le> b \<and> even (x - (a + 2))}"
      proof (cases "x = a")
        case False
        with x have "x \<noteq> a + 1" by auto
        with False x show ?thesis by simp
      qed simp
    next
      fix x assume "x \<in> insert a {x. a + 2 \<le> x \<and> x \<le> b \<and> even (x - (a + 2))}"
      with True show "x \<in> {x. a \<le> x \<and> x \<le> b \<and> even (x - a)}" by auto
    qed
    with 1 [OF True] True show ?thesis by (subst range2.simps) simp
  qed
qed

lemma range2_distinct: "distinct (range2 a b)"
proof (induction a b rule: range2.induct)
  case (1 a b)
  show ?case
  proof (cases "a \<le> b")
    case False
    then show ?thesis by (subst range2.simps) simp
  next
    case True
    with 1 [OF True] show ?thesis by (subst range2.simps) (simp add: range2_set)
  qed
qed

lemma c_mod_nonneg: "0 \<le> a \<Longrightarrow> c_mod a 2 = a mod 2"
  by (cases "a = 0") (simp_all add: c_mod_def)


lemma type1_pairs_reindex:
  assumes "0 \<le> k" "0 \<le> l" "0 \<le> m"
  shows "(\<Sum>lam\<leftarrow>range2 (c_mod (k + l + m) 2) (k + l + m).
            \<Sum>mu\<leftarrow>range2 (c_mod (c_mod (k + l + m) 2 + m) 2) lam. f lam ((1 - 2 * c_mod l 2) * mu))
         = (\<Sum>(lam, mu)\<in>type1_pairs k l m. f lam mu)"
proof -
  let ?ix = "k + l + m"
  let ?lp = "?ix mod 2"
  let ?mp = "(?lp + m) mod 2"
  let ?s = "1 - 2 * (l mod 2)"
  let ?A = "set (range2 ?lp ?ix)"
  let ?B = "\<lambda>lam. set (range2 ?mp lam)"
  have cm: "c_mod ?ix 2 = ?lp" "c_mod (?lp + m) 2 = ?mp" "c_mod l 2 = l mod 2"
    using assms by (simp_all add: c_mod_nonneg)
  have s: "?s = (if even l then 1 else - 1)" by presburger
  have "(\<Sum>lam\<leftarrow>range2 ?lp ?ix. \<Sum>mu\<leftarrow>range2 ?mp lam. f lam (?s * mu))
        = (\<Sum>lam\<in>?A. \<Sum>mu\<in>?B lam. f lam (?s * mu))"
    by (simp add: sum_list_distinct_conv_sum_set range2_distinct)
  also have "\<dots> = (\<Sum>(lam, mu)\<in>(SIGMA lam:?A. ?B lam). f lam (?s * mu))"
    by (simp add: sum.Sigma)
  also have "\<dots> = (\<Sum>(lam, mu)\<in>type1_pairs k l m. f lam mu)"
  proof (rule sum.reindex_bij_witness [where i = "\<lambda>(lam, mu). (lam, ?s * mu)"
        and j = "\<lambda>(lam, mu). (lam, ?s * mu)"])
    fix a assume "a \<in> (SIGMA lam:?A. ?B lam)"
    then obtain lam mu where a: "a = (lam, mu)" and lam: "?lp \<le> lam" "lam \<le> ?ix" "even (lam - ?lp)"
      and mu: "?mp \<le> mu" "mu \<le> lam" "even (mu - ?mp)"
      by (auto simp: range2_set)
    show "(case (case a of (lam, mu) \<Rightarrow> (lam, ?s * mu)) of (lam, mu) \<Rightarrow> (lam, ?s * mu)) = a"
      unfolding a s by simp
    have lam0: "0 \<le> lam" "even (?ix - lam)" using lam by presburger+
    have mu0: "0 \<le> mu" "even (k + l - mu)" using mu by presburger+
    show "(case a of (lam, mu) \<Rightarrow> (lam, ?s * mu)) \<in> type1_pairs k l m"
      unfolding a s using lam lam0 mu mu0 by (simp add: type1_pairs_def)
    show "(case (case a of (lam, mu) \<Rightarrow> (lam, ?s * mu)) of (lam, mu) \<Rightarrow> f lam mu)
            = (case a of (lam, mu) \<Rightarrow> f lam (?s * mu))"
      unfolding a by simp
  next
    fix b assume "b \<in> type1_pairs k l m"
    then obtain lam mu where b: "b = (lam, mu)" and lam: "0 \<le> lam" "lam \<le> ?ix" "even (?ix - lam)"
      and mu: "\<bar>mu\<bar> \<le> lam" "even (k + l - mu)" "if even l then 0 \<le> mu else mu \<le> 0"
      by (auto simp: type1_pairs_def)
    show "(case (case b of (lam, mu) \<Rightarrow> (lam, ?s * mu)) of (lam, mu) \<Rightarrow> (lam, ?s * mu)) = b"
      unfolding b s by simp
    have l1: "?lp \<le> lam" "even (lam - ?lp)" using lam by presburger+
    have m1: "?mp \<le> ?s * mu" "?s * mu \<le> lam" "even (?s * mu - ?mp)"
      unfolding s using mu by (presburger+)
    show "(case b of (lam, mu) \<Rightarrow> (lam, ?s * mu)) \<in> (SIGMA lam:?A. ?B lam)"
      unfolding b using l1 m1 lam by (simp add: range2_set)
  qed
  finally show ?thesis unfolding cm .
qed


lemma type1_term_add:
  assumes "0 \<le> k" "0 \<le> l" "0 \<le> m"
  shows "type1_term E na nb C k l m M = Matrix_add_to M na nb (type1_tuple E C k l m)"
proof (cases "\<bar>C\<bar> > 1 / 10 ^ 14")
  case False
  then show ?thesis by (simp add: type1_term_def type1_tuple_def)
next
  case True
  let ?ix = "k + l + m"
  let ?f = "\<lambda>lam mu. C * getIntegral5 (env_angInts E) k l m lam mu
              * ThreeIndex_get (env_radials E) ?ix lam (lam + mu)"
  let ?s = "1 - 2 * c_mod l 2"
  let ?mp = "c_mod (c_mod ?ix 2 + m) 2"
  have mu: "type1_mu E na nb C k l m ?ix ?s lam M' mu = Matrix_add_to M' na nb (?f lam (?s * mu))"
    for M' lam mu
    by (simp add: type1_mu_def Matrix_add_to_def)
  have lam: "foldl (type1_mu E na nb C k l m ?ix ?s lam) M' (range2 ?mp lam)
       = Matrix_add_to M' na nb (\<Sum>mu\<leftarrow>range2 ?mp lam. ?f lam (?s * mu))" for M' lam
    by (rule foldl_Matrix_add_to) (rule mu)
  have "type1_term E na nb C k l m M =
      foldl (\<lambda>values lam. foldl (type1_mu E na nb C k l m ?ix ?s lam) values (range2 ?mp lam))
        M (range2 (c_mod ?ix 2) ?ix)"
    using True by (simp add: type1_term_def Let_def)
  also have "\<dots> = Matrix_add_to M na nb
      (\<Sum>lam\<leftarrow>range2 (c_mod ?ix 2) ?ix. \<Sum>mu\<leftarrow>range2 ?mp lam. ?f lam (?s * mu))"
    by (rule foldl_Matrix_add_to) (rule lam)
  also have "(\<Sum>lam\<leftarrow>range2 (c_mod ?ix 2) ?ix. \<Sum>mu\<leftarrow>range2 ?mp lam. ?f lam (?s * mu))
      = (\<Sum>(lam, mu)\<in>type1_pairs k l m. ?f lam mu)"
    by (rule type1_pairs_reindex [OF assms])
  also have "\<dots> = type1_tuple E C k l m"
    using True by (simp add: type1_tuple_def)
  finally show ?thesis .
qed

lemma type1_k1_fold:
  "foldl (type1_k1 E na nb x1 x2 y1 y2 z1 z2) M [0..x1] =
     Matrix_add_to M na nb
       (\<Sum>k1 = 0..x1. \<Sum>k2 = 0..x2. \<Sum>l1 = 0..y1. \<Sum>l2 = 0..y2. \<Sum>m1 = 0..z1. \<Sum>m2 = 0..z2.
          type1_tuple E
           (calcC x1 k1 (env_Ax E) (env_fac E) * calcC y1 l1 (env_Ay E) (env_fac E)
              * calcC z1 m1 (env_Az E) (env_fac E) * calcC x2 k2 (env_Bx E) (env_fac E)
              * calcC y2 l2 (env_By E) (env_fac E) * calcC z2 m2 (env_Bz E) (env_fac E))
           (k1 + k2) (l1 + l2) (m1 + m2))"
  unfolding sum_list_upto [symmetric]
proof (rule foldl_Matrix_add_to)
  fix M k1 assume "k1 \<in> set [0..x1]"
  then have k1: "0 \<le> k1" by simp
  show "type1_k1 E na nb x1 x2 y1 y2 z1 z2 M k1 = Matrix_add_to M na nb
       (\<Sum>k2\<leftarrow>[0..x2]. \<Sum>l1\<leftarrow>[0..y1]. \<Sum>l2\<leftarrow>[0..y2]. \<Sum>m1\<leftarrow>[0..z1]. \<Sum>m2\<leftarrow>[0..z2].
          type1_tuple E
           (calcC x1 k1 (env_Ax E) (env_fac E) * calcC y1 l1 (env_Ay E) (env_fac E)
              * calcC z1 m1 (env_Az E) (env_fac E) * calcC x2 k2 (env_Bx E) (env_fac E)
              * calcC y2 l2 (env_By E) (env_fac E) * calcC z2 m2 (env_Bz E) (env_fac E))
           (k1 + k2) (l1 + l2) (m1 + m2))"
    unfolding type1_k1_def Let_def
  proof (rule foldl_Matrix_add_to)
    fix M k2 assume "k2 \<in> set [0..x2]"
    then have k: "0 \<le> k1 + k2" using k1 by simp
    show "type1_k2 E na nb x2 y1 y2 z1 z2 (calcC x1 k1 (env_Ax E) (env_fac E)) k1 M k2 =
       Matrix_add_to M na nb
       (\<Sum>l1\<leftarrow>[0..y1]. \<Sum>l2\<leftarrow>[0..y2]. \<Sum>m1\<leftarrow>[0..z1]. \<Sum>m2\<leftarrow>[0..z2].
          type1_tuple E
           (calcC x1 k1 (env_Ax E) (env_fac E) * calcC y1 l1 (env_Ay E) (env_fac E)
              * calcC z1 m1 (env_Az E) (env_fac E) * calcC x2 k2 (env_Bx E) (env_fac E)
              * calcC y2 l2 (env_By E) (env_fac E) * calcC z2 m2 (env_Bz E) (env_fac E))
           (k1 + k2) (l1 + l2) (m1 + m2))"
      unfolding type1_k2_def Let_def
    proof (rule foldl_Matrix_add_to)
      fix M l1 assume "l1 \<in> set [0..y1]"
      then have l1: "0 \<le> l1" by simp
      show "type1_l1 E na nb y1 y2 z1 z2 (calcC x1 k1 (env_Ax E) (env_fac E))
              (calcC x2 k2 (env_Bx E) (env_fac E)) (k1 + k2) M l1 =
         Matrix_add_to M na nb
         (\<Sum>l2\<leftarrow>[0..y2]. \<Sum>m1\<leftarrow>[0..z1]. \<Sum>m2\<leftarrow>[0..z2].
          type1_tuple E
           (calcC x1 k1 (env_Ax E) (env_fac E) * calcC y1 l1 (env_Ay E) (env_fac E)
              * calcC z1 m1 (env_Az E) (env_fac E) * calcC x2 k2 (env_Bx E) (env_fac E)
              * calcC y2 l2 (env_By E) (env_fac E) * calcC z2 m2 (env_Bz E) (env_fac E))
           (k1 + k2) (l1 + l2) (m1 + m2))"
        unfolding type1_l1_def Let_def
      proof (rule foldl_Matrix_add_to)
        fix M l2 assume "l2 \<in> set [0..y2]"
        then have l: "0 \<le> l1 + l2" using l1 by simp
        show "type1_l2 E na nb y2 z1 z2 (calcC x1 k1 (env_Ax E) (env_fac E))
                (calcC x2 k2 (env_Bx E) (env_fac E)) (calcC y1 l1 (env_Ay E) (env_fac E))
                (k1 + k2) l1 M l2 =
           Matrix_add_to M na nb
           (\<Sum>m1\<leftarrow>[0..z1]. \<Sum>m2\<leftarrow>[0..z2].
            type1_tuple E
             (calcC x1 k1 (env_Ax E) (env_fac E) * calcC y1 l1 (env_Ay E) (env_fac E)
                * calcC z1 m1 (env_Az E) (env_fac E) * calcC x2 k2 (env_Bx E) (env_fac E)
                * calcC y2 l2 (env_By E) (env_fac E) * calcC z2 m2 (env_Bz E) (env_fac E))
             (k1 + k2) (l1 + l2) (m1 + m2))"
          unfolding type1_l2_def Let_def
        proof (rule foldl_Matrix_add_to)
          fix M m1 assume "m1 \<in> set [0..z1]"
          then have m1: "0 \<le> m1" by simp
          show "type1_m1 E na nb z1 z2 (calcC x1 k1 (env_Ax E) (env_fac E))
                  (calcC x2 k2 (env_Bx E) (env_fac E)) (calcC y1 l1 (env_Ay E) (env_fac E))
                  (calcC y2 l2 (env_By E) (env_fac E)) (k1 + k2) (l1 + l2) M m1 =
             Matrix_add_to M na nb
             (\<Sum>m2\<leftarrow>[0..z2].
              type1_tuple E
               (calcC x1 k1 (env_Ax E) (env_fac E) * calcC y1 l1 (env_Ay E) (env_fac E)
                  * calcC z1 m1 (env_Az E) (env_fac E) * calcC x2 k2 (env_Bx E) (env_fac E)
                  * calcC y2 l2 (env_By E) (env_fac E) * calcC z2 m2 (env_Bz E) (env_fac E))
               (k1 + k2) (l1 + l2) (m1 + m2))"
            unfolding type1_m1_def Let_def
          proof (rule foldl_Matrix_add_to)
            fix M m2 assume "m2 \<in> set [0..z2]"
            then have m: "0 \<le> m1 + m2" using m1 by simp
            show "type1_m2 E na nb z2 (calcC x1 k1 (env_Ax E) (env_fac E))
                  (calcC x2 k2 (env_Bx E) (env_fac E)) (calcC y1 l1 (env_Ay E) (env_fac E))
                  (calcC y2 l2 (env_By E) (env_fac E)) (calcC z1 m1 (env_Az E) (env_fac E))
                  (k1 + k2) (l1 + l2) m1 M m2 =
               Matrix_add_to M na nb
                (type1_tuple E
                 (calcC x1 k1 (env_Ax E) (env_fac E) * calcC y1 l1 (env_Ay E) (env_fac E)
                    * calcC z1 m1 (env_Az E) (env_fac E) * calcC x2 k2 (env_Bx E) (env_fac E)
                    * calcC y2 l2 (env_By E) (env_fac E) * calcC z2 m2 (env_Bz E) (env_fac E))
                 (k1 + k2) (l1 + l2) (m1 + m2))"
              unfolding type1_m2_def Let_def by (rule type1_term_add [OF k l m])
          qed
        qed
      qed
    qed
  qed
qed


lemma foldl_concat_map:
  "foldl h s (concat (map (\<lambda>x. map (c x) (g x)) xs))
     = foldl (\<lambda>s x. foldl (\<lambda>s y. h s (c x y)) s (g x)) s xs"
  by (induction xs arbitrary: s) (simp_all add: foldl_map)

lemma type1_y2_block:
  "type1_y2 E LB x1 y1 z1 x2 s y2 = type1_block E (x1, y1, z1) s (x2, y2, LB - x2 - y2)"
  by (simp add: type1_y2_def Let_def type1_k1_fold type1_entry_def type1_tuples_sum_def
      Matrix_add_to_def Matrix_set_def Matrix_get_def type1_block_def algebra_simps)

lemma type1_block_fold:
  "t1_na (foldl (type1_block E a) s bs) = t1_na s \<and>
   t1_nb (foldl (type1_block E a) s bs) = t1_nb s + int (length bs) \<and>
   (\<forall>r c. cells (t1_values (foldl (type1_block E a) s bs)) (r, c) =
      (if r = t1_na s \<and> t1_nb s \<le> c \<and> c < t1_nb s + int (length bs)
       then type1_entry E a (bs ! nat (c - t1_nb s)) + cells (t1_values s) (r, c) * (4 * pi)
       else cells (t1_values s) (r, c)))"
proof (induction bs arbitrary: s)
  case Nil
  show ?case by simp
next
  case (Cons b bs)
  let ?s = "type1_block E a s b"
  have s1: "t1_na ?s = t1_na s" "t1_nb ?s = t1_nb s + 1"
    "\<And>r c. cells (t1_values ?s) (r, c) =
       (if r = t1_na s \<and> c = t1_nb s
        then type1_entry E a b + cells (t1_values s) (r, c) * (4 * pi)
        else cells (t1_values s) (r, c))"
    by (simp_all add: type1_block_def)
  note IH = Cons.IH [of ?s, unfolded s1]
  have "cells (t1_values (foldl (type1_block E a) ?s bs)) (r, c) =
      (if r = t1_na s \<and> t1_nb s \<le> c \<and> c < t1_nb s + int (length (b # bs))
       then type1_entry E a ((b # bs) ! nat (c - t1_nb s)) + cells (t1_values s) (r, c) * (4 * pi)
       else cells (t1_values s) (r, c))" for r c
  proof (cases "r = t1_na s \<and> t1_nb s + 1 \<le> c \<and> c < t1_nb s + 1 + int (length bs)")
    case True
    then have "nat (c - t1_nb s) = Suc (nat (c - (t1_nb s + 1)))" by linarith
    with True IH show ?thesis by simp
  next
    case False
    with IH show ?thesis by auto
  qed
  with IH show ?case by simp
qed

lemma type1_x2_fold:
  "foldl (type1_x2 E LB x1 y1 z1) s [0..LB] =
     foldl (type1_block E (x1, y1, z1)) s (cartesian_components LB)"
proof -
  have y2: "type1_y2 E LB x1 y1 z1 x2 = (\<lambda>s y2. type1_block E (x1, y1, z1) s (x2, y2, LB - x2 - y2))"
    for x2
    by (intro ext) (rule type1_y2_block)
  have x2: "type1_x2 E LB x1 y1 z1 =
      (\<lambda>s x2. foldl (\<lambda>s y2. type1_block E (x1, y1, z1) s (x2, y2, LB - x2 - y2)) s [0..LB - x2])"
    by (intro ext) (simp only: type1_x2_def y2)
  show ?thesis
    unfolding cartesian_components_def foldl_concat_map x2 ..
qed

lemma type1_y1_row:
  "type1_y1 E LA LB x1 s y1 = type1_row E LB s (x1, y1, LA - x1 - y1)"
proof -
  have "t1_na (foldl (type1_block E (x1, y1, LA - x1 - y1)) (s\<lparr>t1_nb := 0\<rparr>) (cartesian_components LB))
      = t1_na s"
    using type1_block_fold [of E "(x1, y1, LA - x1 - y1)" "s\<lparr>t1_nb := 0\<rparr>" "cartesian_components LB"]
    by simp
  then show ?thesis
    by (simp add: type1_y1_def Let_def type1_x2_fold type1_row_def)
qed

lemma type1_x1_fold:
  "foldl (type1_x1 E LA LB) s [0..LA] = foldl (type1_row E LB) s (cartesian_components LA)"
proof -
  have y1: "type1_y1 E LA LB x1 = (\<lambda>s y1. type1_row E LB s (x1, y1, LA - x1 - y1))" for x1
    by (intro ext) (rule type1_y1_row)
  have x1: "type1_x1 E LA LB =
      (\<lambda>s x1. foldl (\<lambda>s y1. type1_row E LB s (x1, y1, LA - x1 - y1)) s [0..LA - x1])"
    by (intro ext) (simp only: type1_x1_def y1)
  show ?thesis
    unfolding cartesian_components_def foldl_concat_map x1 ..
qed


lemma type1_row_cells:
  "t1_na (type1_row E LB s a) = t1_na s + 1 \<and>
   (\<forall>r c. cells (t1_values (type1_row E LB s a)) (r, c) =
      (if r = t1_na s \<and> 0 \<le> c \<and> c < int (length (cartesian_components LB))
       then type1_entry E a (cartesian_components LB ! nat c) + cells (t1_values s) (r, c) * (4 * pi)
       else cells (t1_values s) (r, c)))"
  using type1_block_fold [of E a "s\<lparr>t1_nb := 0\<rparr>" "cartesian_components LB"]
  by (simp add: type1_row_def)

lemma type1_row_fold:
  "t1_na (foldl (type1_row E LB) s as) = t1_na s + int (length as) \<and>
   (\<forall>r c. cells (t1_values (foldl (type1_row E LB) s as)) (r, c) =
      (if t1_na s \<le> r \<and> r < t1_na s + int (length as) \<and>
          0 \<le> c \<and> c < int (length (cartesian_components LB))
       then type1_entry E (as ! nat (r - t1_na s)) (cartesian_components LB ! nat c)
              + cells (t1_values s) (r, c) * (4 * pi)
       else cells (t1_values s) (r, c)))"
proof (induction as arbitrary: s)
  case Nil
  show ?case by simp
next
  case (Cons a as)
  let ?s = "type1_row E LB s a"
  note s1 = type1_row_cells [of E LB s a]
  from s1 have na: "t1_na ?s = t1_na s + 1" by simp
  from s1 have c1: "cells (t1_values ?s) (r, c) =
      (if r = t1_na s \<and> 0 \<le> c \<and> c < int (length (cartesian_components LB))
       then type1_entry E a (cartesian_components LB ! nat c) + cells (t1_values s) (r, c) * (4 * pi)
       else cells (t1_values s) (r, c))" for r c
    by simp
  note IH = Cons.IH [of ?s, unfolded na]
  have "cells (t1_values (foldl (type1_row E LB) ?s as)) (r, c) =
      (if t1_na s \<le> r \<and> r < t1_na s + int (length (a # as)) \<and>
          0 \<le> c \<and> c < int (length (cartesian_components LB))
       then type1_entry E ((a # as) ! nat (r - t1_na s)) (cartesian_components LB ! nat c)
              + cells (t1_values s) (r, c) * (4 * pi)
       else cells (t1_values s) (r, c))" for r c
  proof (cases "t1_na s + 1 \<le> r \<and> r < t1_na s + 1 + int (length as) \<and>
          0 \<le> c \<and> c < int (length (cartesian_components LB))")
    case True
    then have "nat (r - t1_na s) = Suc (nat (r - (t1_na s + 1)))" by linarith
    moreover from True have "r \<noteq> t1_na s" by simp
    ultimately show ?thesis using True IH c1 [of r c] by simp
  next
    case False
    from IH have "cells (t1_values (foldl (type1_row E LB) ?s as)) (r, c) =
       (if t1_na s + 1 \<le> r \<and> r < t1_na s + 1 + int (length as) \<and>
            0 \<le> c \<and> c < int (length (cartesian_components LB))
        then type1_entry E (as ! nat (r - (t1_na s + 1))) (cartesian_components LB ! nat c)
              + cells (t1_values ?s) (r, c) * (4 * pi)
        else cells (t1_values ?s) (r, c))"
      by blast
    with False
    have "cells (t1_values (foldl (type1_row E LB) ?s as)) (r, c) = cells (t1_values ?s) (r, c)"
      by (simp only: if_False)
    also have "\<dots> = (if r = t1_na s \<and> 0 \<le> c \<and> c < int (length (cartesian_components LB))
       then type1_entry E a (cartesian_components LB ! nat c) + cells (t1_values s) (r, c) * (4 * pi)
       else cells (t1_values s) (r, c))"
      by (rule c1)
    finally show ?thesis using False by auto
  qed
  with IH show ?case by simp
qed

lemma type1_contract_cells:
  assumes "i < length (cartesian_components LA)" "j < length (cartesian_components LB)"
  shows "Matrix_get (type1_contract E LA LB ncartA ncartB) (int i) (int j)
           = type1_entry E (cartesian_components LA ! i) (cartesian_components LB ! j)"
proof -
  let ?s0 = "\<lparr>t1_values = Matrix_assign ncartA ncartB 0, t1_na = 0, t1_nb = 0\<rparr>"
  have "Matrix_get (type1_contract E LA LB ncartA ncartB) (int i) (int j)
      = cells (t1_values (foldl (type1_row E LB) ?s0 (cartesian_components LA))) (int i, int j)"
    by (simp add: type1_contract_def type1_x1_fold Matrix_get_def)
  also have "\<dots> = type1_entry E (cartesian_components LA ! i) (cartesian_components LB ! j)"
    using assms type1_row_fold [of E LB ?s0 "cartesian_components LA"]
    by (simp add: Matrix_assign_def)
  finally show ?thesis .
qed

text \<open>
  Claim C1. In the matrix produced by the contraction of \<open>ECPIntegral::type1\<close>, the entry
  for the \<open>i\<close>-th Cartesian component \<open>(x1, y1, z1)\<close> of shell A and the \<open>j\<close>-th component
  \<open>(x2, y2, z2)\<close> of shell B is \<open>4\<pi>\<close> times the sum, over all tuples
  \<open>(k1, k2, l1, l2, m1, m2)\<close> bounded by the respective powers whose coefficient \<open>C\<close> (the
  product of the six \<open>calcC\<close> factors) has \<open>|C| > 1e-14\<close>, and over all pairs \<open>(\<lambda>, \<mu>)\<close> of
  \<open>type1_pairs\<close> (\<open>\<lambda> \<le> k+l+m\<close> with the parity of \<open>k+l+m\<close>; \<open>\<mu>\<close> of magnitude at most \<open>\<lambda>\<close>,
  with that parity shifted by \<open>m\<close> and the sign \<open>(-1)\<^sup>l\<close>), of \<open>C\<close> times the angular lookup at
  \<open>(k,l,m,\<lambda>,\<mu>)\<close> times the cached radial integral at \<open>(k+l+m, \<lambda>, \<mu>)\<close>. Sums are exact
  (the order of the additions does not matter).
\<close>

theorem type1_contract_entries:
  assumes "i < length (cartesian_components LA)" "j < length (cartesian_components LB)"
  shows "Matrix_get (type1_contract E LA LB ncartA ncartB) (int i) (int j)
           = type1_entry E (cartesian_components LA ! i) (cartesian_components LB ! j)"
  using assms by (rule type1_contract_cells)

lemma cartesian_components_1: "cartesian_components 1 = [(0, 0, 1), (0, 1, 0), (1, 0, 0)]"
  by (simp add: cartesian_components_def upto.simps)

lemma cartesian_components_0: "cartesian_components 0 = [(0, 0, 0)]"
  by (simp add: cartesian_components_def upto.simps)

lemma facArray_1: "facArray 1 = [1, 1]"
  by (simp add: facArray_def upto.simps Let_def numeral_2_eq_2)

lemma type1_example:
  "Matrix_get (type1_contract ex_env 1 0 3 1) 2 0 = - (4 * pi)"
  by (simp add: type1_contract_def type1_x1_def type1_y1_def type1_x2_def type1_y2_def
      type1_k1_def type1_k2_def type1_l1_def type1_l2_def type1_m1_def type1_m2_def
      type1_term_def type1_mu_def calcC_def c_mod_def range2.simps upto.simps Let_def
      ex_env_def facArray_1 getIntegral5_def ex_angular_def AngularIntegral_init_def
      FiveIndex_get_def ThreeIndex_get_def Matrix_get_def Matrix_set_def Matrix_assign_def)


theorem type1_contract_entries_witness:
  "Matrix_get (type1_contract ex_env 1 0 3 1) (int 2) (int 0) = type1_entry ex_env (1, 0, 0) (0, 0, 0) \<and>
   type1_entry ex_env (1, 0, 0) (0, 0, 0) = - (4 * pi)"
  using type1_contract_entries [of 2 1 0 0 ex_env 3 1] type1_example
  by (simp add: cartesian_components_1 cartesian_components_0)

section \<open>What the pruning of small coefficients leaves out\<close>

lemma type1_tuples_sum_diff:
  "type1_tuples_sum E a b (\<lambda>C k l m. f C k l m - g C k l m)
     = type1_tuples_sum E a b f - type1_tuples_sum E a b g"
  by (simp add: type1_tuples_sum_def sum_subtractf split: prod.splits)

lemma type1_tuples_sum_abs:
  "\<bar>type1_tuples_sum E a b f\<bar> \<le> type1_tuples_sum E a b (\<lambda>C k l m. \<bar>f C k l m\<bar>)"
  unfolding type1_tuples_sum_def
  by (auto split: prod.splits intro!: order_trans [OF sum_abs] sum_mono)

lemma type1_tuples_sum_mono:
  assumes "\<And>C k l m. f C k l m \<le> g C k l m"
  shows "type1_tuples_sum E a b f \<le> type1_tuples_sum E a b g"
  unfolding type1_tuples_sum_def
  by (auto split: prod.splits intro!: sum_mono assms)

lemma type1_tuples_sum_scale:
  "type1_tuples_sum E a b (\<lambda>C k l m. c * f C k l m) = c * type1_tuples_sum E a b f"
  by (simp add: type1_tuples_sum_def sum_distrib_left split: prod.splits)

lemma type1_skipped_diff:
  "type1_skipped E C k l m = type1_tuple_unpruned E C k l m - type1_tuple E C k l m"
  by (simp add: type1_skipped_def type1_tuple_unpruned_def type1_tuple_def)

lemma type1_skipped_le:
  "\<bar>type1_skipped E C k l m\<bar> \<le> 1 / 10 ^ 14 * type1_skipped_weight E C k l m"
proof (cases "\<bar>C\<bar> > 1 / 10 ^ 14")
  case True
  then show ?thesis by (simp add: type1_skipped_def type1_skipped_weight_def)
next
  case False
  let ?g = "\<lambda>(lam, mu). getIntegral5 (env_angInts E) k l m lam mu
                * ThreeIndex_get (env_radials E) (k + l + m) lam (lam + mu)"
  have "type1_skipped E C k l m = C * (\<Sum>p\<in>type1_pairs k l m. ?g p)"
    using False
    by (simp add: type1_skipped_def type1_tuple_unpruned_def sum_distrib_left
        case_prod_unfold mult.assoc)
  then have "\<bar>type1_skipped E C k l m\<bar> = \<bar>C\<bar> * \<bar>\<Sum>p\<in>type1_pairs k l m. ?g p\<bar>"
    by (simp add: abs_mult)
  also have "\<dots> \<le> 1 / 10 ^ 14 * (\<Sum>p\<in>type1_pairs k l m. \<bar>?g p\<bar>)"
    using False by (intro mult_mono sum_abs) (simp_all add: sum_nonneg)
  also have "(\<Sum>p\<in>type1_pairs k l m. \<bar>?g p\<bar>) = type1_skipped_weight E C k l m"
    using False by (simp add: type1_skipped_weight_def case_prod_unfold)
  finally show ?thesis .
qed

lemma type1_pairs_000: "type1_pairs 0 0 0 = {(0, 0)}"
  by (auto simp add: type1_pairs_def)

lemma type1_pairs_100: "type1_pairs 1 0 0 = {(1, 1)}"
proof -
  have "(lam, mu) \<in> type1_pairs 1 0 0 \<longleftrightarrow> lam = 1 \<and> mu = 1" for lam mu
    unfolding type1_pairs_def by (auto; presburger)
  then show ?thesis by auto
qed

lemma atLeastAtMost_0_1: "{0..1::int} = {0, 1}"
  by auto

lemma near_axis_pruned:
  "Matrix_get (type1_contract ex_env_near_axis 1 0 3 1) 2 0 = 4 * pi"
  by (simp add: type1_contract_def type1_x1_def type1_y1_def type1_x2_def type1_y2_def
      type1_k1_def type1_k2_def type1_l1_def type1_l2_def type1_m1_def type1_m2_def
      type1_term_def type1_mu_def calcC_def c_mod_def range2.simps upto.simps Let_def
      ex_env_near_axis_def facArray_1 getIntegral5_def ex_angular_def AngularIntegral_init_def
      FiveIndex_get_def ThreeIndex_get_def ThreeIndex_cell_def Matrix_get_def Matrix_set_def
      Matrix_assign_def
      mul32_def add32_def int32_def)

lemma near_axis_unpruned:
  "type1_entry_unpruned ex_env_near_axis (1, 0, 0) (0, 0, 0) = 0"
  by (simp add: atLeastAtMost_0_1 type1_entry_unpruned_def type1_tuples_sum_def
      type1_tuple_unpruned_def type1_pairs_000 type1_pairs_100 calcC_def c_mod_def Let_def
      ex_env_near_axis_def facArray_1 getIntegral5_def ex_angular_def AngularIntegral_init_def
      FiveIndex_get_def ThreeIndex_get_def ThreeIndex_cell_def
      mul32_def add32_def int32_def)

lemma near_axis_weight:
  "type1_tuples_sum ex_env_near_axis (1, 0, 0) (0, 0, 0) (type1_skipped_weight ex_env_near_axis)
     = 10 ^ 15"
  by (simp add: atLeastAtMost_0_1 type1_tuples_sum_def type1_skipped_weight_def
      type1_pairs_000 type1_pairs_100 calcC_def c_mod_def Let_def
      ex_env_near_axis_def facArray_1 getIntegral5_def ex_angular_def AngularIntegral_init_def
      FiveIndex_get_def ThreeIndex_get_def ThreeIndex_cell_def
      mul32_def add32_def int32_def)

text \<open>
  Claim C6, as stated, at the environment \<open>ex_env_near_axis\<close>: the coefficient of the
  tuple \<open>k1 = 0\<close> of the component \<open>(1, 0, 0)\<close> is \<open>-1e-15\<close>, the pruning skips it, and the
  skipped term \<open>-1e-15 * 1 * 1e15 = -1\<close> cancels the term of the tuple \<open>k1 = 1\<close>. The
  pruned contraction stores \<open>4\<pi>\<close>, the sum over all tuples is 0.
\<close>

theorem type1_pruning_counterexample:
  "Matrix_get (type1_contract ex_env_near_axis 1 0 3 1) 2 0 = 4 * pi \<and>
   type1_entry_unpruned ex_env_near_axis (1, 0, 0) (0, 0, 0) = 0"
  using near_axis_pruned near_axis_unpruned by simp

text \<open>
  Claim C6, as amended. Disabling the pruning changes the entry for the \<open>i\<close>-th Cartesian
  component of shell A and the \<open>j\<close>-th component of shell B by exactly \<open>4\<pi>\<close> times the sum
  of the contributions of the skipped tuples (those whose coefficient has \<open>|C| \<le> 1e-14\<close>);
  the magnitude of the change is at most \<open>4\<pi> * 1e-14\<close> times the sum, over the skipped
  tuples and their pairs \<open>(\<lambda>, \<mu>)\<close>, of the magnitudes of angular lookup times cached radial
  integral. Sums are exact.
\<close>

theorem type1_pruning_difference:
  assumes "i < length (cartesian_components LA)" "j < length (cartesian_components LB)"
  shows "type1_entry_unpruned E (cartesian_components LA ! i) (cartesian_components LB ! j)
           - Matrix_get (type1_contract E LA LB ncartA ncartB) (int i) (int j)
         = 4 * pi * type1_tuples_sum E (cartesian_components LA ! i) (cartesian_components LB ! j)
                      (type1_skipped E) \<and>
         \<bar>type1_entry_unpruned E (cartesian_components LA ! i) (cartesian_components LB ! j)
           - Matrix_get (type1_contract E LA LB ncartA ncartB) (int i) (int j)\<bar>
         \<le> 4 * pi * (1 / 10 ^ 14)
              * type1_tuples_sum E (cartesian_components LA ! i) (cartesian_components LB ! j)
                  (type1_skipped_weight E)"
proof -
  let ?a = "cartesian_components LA ! i" and ?b = "cartesian_components LB ! j"
  have skip: "type1_skipped E = (\<lambda>C k l m. type1_tuple_unpruned E C k l m - type1_tuple E C k l m)"
    by (intro ext) (rule type1_skipped_diff)
  have eq: "type1_entry_unpruned E ?a ?b - Matrix_get (type1_contract E LA LB ncartA ncartB) (int i) (int j)
      = 4 * pi * type1_tuples_sum E ?a ?b (type1_skipped E)"
    unfolding skip type1_tuples_sum_diff type1_contract_cells [OF assms]
    by (simp add: type1_entry_unpruned_def type1_entry_def algebra_simps)
  have "\<bar>type1_tuples_sum E ?a ?b (type1_skipped E)\<bar>
      \<le> type1_tuples_sum E ?a ?b (\<lambda>C k l m. \<bar>type1_skipped E C k l m\<bar>)"
    by (rule type1_tuples_sum_abs)
  also have "\<dots> \<le> type1_tuples_sum E ?a ?b (\<lambda>C k l m. 1 / 10 ^ 14 * type1_skipped_weight E C k l m)"
    by (rule type1_tuples_sum_mono) (rule type1_skipped_le)
  also have "\<dots> = 1 / 10 ^ 14 * type1_tuples_sum E ?a ?b (type1_skipped_weight E)"
    by (rule type1_tuples_sum_scale)
  finally have "\<bar>type1_tuples_sum E ?a ?b (type1_skipped E)\<bar>
      \<le> 1 / 10 ^ 14 * type1_tuples_sum E ?a ?b (type1_skipped_weight E)" .
  then have "4 * pi * \<bar>type1_tuples_sum E ?a ?b (type1_skipped E)\<bar>
      \<le> 4 * pi * (1 / 10 ^ 14 * type1_tuples_sum E ?a ?b (type1_skipped_weight E))"
    by (intro mult_left_mono) simp_all
  then have "\<bar>4 * pi * type1_tuples_sum E ?a ?b (type1_skipped E)\<bar>
      \<le> 4 * pi * (1 / 10 ^ 14) * type1_tuples_sum E ?a ?b (type1_skipped_weight E)"
    by (simp add: abs_mult)
  with eq show ?thesis by simp
qed

theorem type1_pruning_difference_witness:
  "type1_entry_unpruned ex_env_near_axis (1, 0, 0) (0, 0, 0)
     - Matrix_get (type1_contract ex_env_near_axis 1 0 3 1) (int 2) (int 0)
   = 4 * pi * type1_tuples_sum ex_env_near_axis (1, 0, 0) (0, 0, 0) (type1_skipped ex_env_near_axis) \<and>
   \<bar>type1_entry_unpruned ex_env_near_axis (1, 0, 0) (0, 0, 0)
     - Matrix_get (type1_contract ex_env_near_axis 1 0 3 1) (int 2) (int 0)\<bar>
   \<le> 4 * pi * (1 / 10 ^ 14)
        * type1_tuples_sum ex_env_near_axis (1, 0, 0) (0, 0, 0) (type1_skipped_weight ex_env_near_axis) \<and>
   type1_entry_unpruned ex_env_near_axis (1, 0, 0) (0, 0, 0)
     - Matrix_get (type1_contract ex_env_near_axis 1 0 3 1) (int 2) (int 0) = - (4 * pi) \<and>
   type1_tuples_sum ex_env_near_axis (1, 0, 0) (0, 0, 0) (type1_skipped_weight ex_env_near_axis)
     = 10 ^ 15"
  using type1_pruning_difference [of 2 1 0 0 ex_env_near_axis 3 1]
    near_axis_pruned near_axis_unpruned near_axis_weight
  by (simp add: cartesian_components_1 cartesian_components_0)

section \<open>The direction of a degenerate primitive pair\<close>

lemma facArray_fold:
  assumes "0 \<le> j" "j \<le> L"
  shows "length (foldl (\<lambda>values i. values[nat i := values ! nat (i - 1) * real_of_int i])
            ((replicate (nat (L + 1)) 0)[0 := 1]) [1..j]) = nat (L + 1) \<and>
         (\<forall>i. 0 \<le> i \<and> i \<le> j \<longrightarrow>
            foldl (\<lambda>values i. values[nat i := values ! nat (i - 1) * real_of_int i])
              ((replicate (nat (L + 1)) 0)[0 := 1]) [1..j] ! nat i = fact (nat i))"
  using assms
proof (induction "nat j" arbitrary: j)
  case 0
  then have "j = 0" by simp
  then show ?case using "0.prems" by simp
next
  case (Suc n)
  let ?f = "\<lambda>values i. values[nat i := values ! nat (i - 1) * real_of_int i]"
  let ?v0 = "(replicate (nat (L + 1)) (0::real))[0 := 1]"
  from Suc have j: "1 \<le> j" "n = nat (j - 1)" "0 \<le> j - 1" "j - 1 \<le> L" by simp_all
  from Suc.hyps(1) [OF j(2,3,4)]
  have len: "length (foldl ?f ?v0 [1..j - 1]) = nat (L + 1)"
    and old: "\<And>i. 0 \<le> i \<and> i \<le> j - 1 \<Longrightarrow> foldl ?f ?v0 [1..j - 1] ! nat i = fact (nat i)"
    by simp_all
  have split: "[1..j] = [1..j - 1] @ [j]" using j(1) by (simp add: upto_rec2)
  have run: "foldl ?f ?v0 [1..j] = (foldl ?f ?v0 [1..j - 1])[nat j := foldl ?f ?v0 [1..j - 1] ! nat (j - 1) * real_of_int j]"
    unfolding split by simp
  have inr: "nat j < nat (L + 1)" using Suc.prems j by simp
  have new: "foldl ?f ?v0 [1..j - 1] ! nat (j - 1) * real_of_int j = fact (nat j)"
  proof -
    have "nat j = Suc (nat (j - 1))" using j(1) by simp
    then have "fact (nat j) = real (nat j) * fact (nat (j - 1))" by (simp only: fact_Suc of_nat_mult)
    also have "real (nat j) = real_of_int j" using j(1) by simp
    finally show ?thesis using old [of "j - 1"] j by simp
  qed
  have "foldl ?f ?v0 [1..j] ! nat i = fact (nat i)" if "0 \<le> i \<and> i \<le> j" for i
  proof (cases "i = j")
    case True
    then show ?thesis unfolding run using inr len new by simp
  next
    case False
    with that have "nat i \<noteq> nat j" "0 \<le> i \<and> i \<le> j - 1" by linarith+
    then show ?thesis unfolding run using old [of i] by simp
  qed
  moreover have "length (foldl ?f ?v0 [1..j]) = nat (L + 1)" unfolding run using len by simp
  ultimately show ?case by blast
qed

lemma facArray_nth:
  assumes "0 \<le> i" "i \<le> L"
  shows "facArray L ! nat i = fact (nat i)"
proof -
  have L: "0 \<le> L" using assms by simp
  from facArray_fold [OF L order_refl] assms show ?thesis
    by (simp add: facArray_def Let_def)
qed

lemma facArray_nonzero: "0 \<le> i \<Longrightarrow> i \<le> L \<Longrightarrow> facArray L ! nat i \<noteq> 0"
  by (simp add: facArray_nth)

lemma checked_div_Some: "b \<noteq> 0 \<Longrightarrow> checked_div a b = Some (a / b)"
  by (simp add: checked_div_def)

lemma foldl_Some:
  assumes "\<And>s x. x \<in> set xs \<Longrightarrow> \<exists>s'. f (Some s) x = Some s'"
  shows "\<exists>s'. foldl f (Some s) xs = Some s'"
  using assms
proof (induction xs arbitrary: s)
  case Nil
  show ?case by simp
next
  case (Cons x xs)
  from Cons.prems [of x s] obtain s1 where s1: "f (Some s) x = Some s1" by auto
  from Cons.IH [of s1] Cons.prems show ?case by (simp add: s1)
qed


lemma rsh_Plm_l_Some:
  assumes "2 \<le> l"
  shows "\<exists>Plm'. rsh_Plm_l x (Some Plm) l = Some Plm'"
proof -
  have "\<exists>s'. foldl (rsh_Plm_m l (x * real_of_int (2 * l - 1))) (Some Plm) [0..l - 1] = Some s'"
  proof (rule foldl_Some)
    fix s m assume "m \<in> set [0..l - 1]"
    then have "real_of_int (l - m) \<noteq> 0" by simp
    then show "\<exists>s'. rsh_Plm_m l (x * real_of_int (2 * l - 1)) (Some s) m = Some s'"
      by (simp add: rsh_Plm_m_def Let_def checked_div_Some)
  qed
  then show ?thesis by (auto simp: rsh_Plm_l_def Let_def)
qed

lemma rsh_Slm_l_Some:
  assumes fac: "\<And>i. 0 \<le> i \<Longrightarrow> i \<le> 2 * lmax \<Longrightarrow> fac ! nat i \<noteq> 0"
    and l: "0 \<le> l" "l \<le> lmax"
  shows "\<exists>M'. rsh_Slm_l osq4pi phi fac Plm (Some M) l = Some M'"
proof -
  have "\<exists>s'. foldl (rsh_Slm_m osq4pi phi fac Plm l) (Some s) [1..l] = Some s'" for s
  proof (rule foldl_Some)
    fix s m assume "m \<in> set [1..l]"
    then have "0 \<le> l + m" "l + m \<le> 2 * lmax" using l by simp_all
    from fac [OF this] show "\<exists>s'. rsh_Slm_m osq4pi phi fac Plm l (Some s) m = Some s'"
      by (cases s) (simp add: rsh_Slm_m_def Let_def checked_div_Some)
  qed
  then show ?thesis by (fastforce simp: rsh_Slm_l_def Let_def)
qed

lemma realSphericalHarmonics_Some:
  assumes fac: "\<And>i. 0 \<le> i \<Longrightarrow> i \<le> 2 * lmax \<Longrightarrow> fac ! nat i \<noteq> 0"
  shows "\<exists>h. realSphericalHarmonics Plm0 lmax x phi fac dfac = Some h"
proof (cases "lmax > 0")
  case False
  then show ?thesis by (simp add: realSphericalHarmonics_def Let_def checked_div_Some)
next
  case True
  define Plm1 where "Plm1 = ((snd (foldl (rsh_Pmm (sqrt (1 - x * x)) dfac) (1, Plm0((0, 0) := 1)) [1..lmax]))
      ((1, 0) := x))((0, 1) := 0)"
  have "\<exists>Plm. foldl (rsh_Plm_l x) (Some Plm1) [2..lmax] = Some Plm"
  proof (rule foldl_Some)
    fix s l assume "l \<in> set [2..lmax]"
    then have "2 \<le> l" by simp
    then show "\<exists>s'. rsh_Plm_l x (Some s) l = Some s'" by (rule rsh_Plm_l_Some)
  qed
  then obtain Plm where Plm: "foldl (rsh_Plm_l x) (Some Plm1) [2..lmax] = Some Plm" by blast
  have "\<exists>h. foldl (rsh_Slm_l (1 / sqrt (4 * pi)) phi fac Plm)
          (Some (Matrix_assign (lmax + 1) (2 * lmax + 1) 0)) [0..lmax] = Some h"
  proof (rule foldl_Some)
    fix s l assume "l \<in> set [0..lmax]"
    then have "0 \<le> l" "l \<le> lmax" by simp_all
    from rsh_Slm_l_Some [OF fac this] show "\<exists>s'. rsh_Slm_l (1 / sqrt (4 * pi)) phi fac Plm (Some s) l = Some s'"
      by blast
  qed
  then show ?thesis
    using True Plm by (simp add: realSphericalHarmonics_def Let_def checked_div_Some Plm1_def)
qed

text \<open>
  Claim C8. For a primitive pair whose parameters \<open>buildParameters\<close> could compute and
  whose weighted-centre distance \<open>P(a, b)\<close> has magnitude below \<open>1e-12\<close>, the direction
  computation of \<open>RadialIntegral::type1\<close> divides by nothing that is zero: the cosine \<open>x\<close> is
  set to 0 instead of being divided by \<open>p * P\<close>, the two divisions by \<open>p\<close> succeed, and the
  real spherical harmonics evaluated from it are computed without a division by zero.
\<close>

theorem type1_direction_degenerate:
  assumes "buildParameters_pair za zb Avec Bvec = Some pp" and "\<bar>pp_P pp\<bar> < 1 / 10 ^ 12"
  shows "\<exists>Py Px. type1_direction za zb Avec Bvec pp = Some (0, Py, Px) \<and>
           (\<exists>harmonics. type1_pair_harmonics atan2 Plm0 maxL za zb Avec Bvec pp = Some (0, harmonics))"
proof -
  have p: "pp_p pp = za + zb" "za + zb \<noteq> 0"
    using assms(1)
    by (auto simp: buildParameters_pair_def Let_def checked_div_def split: if_splits Option.bind_splits)
  then have dir: "type1_direction za zb Avec Bvec pp =
      Some (0, (za * Avec ! 1 + zb * Bvec ! 1) / (za + zb), (za * Avec ! 0 + zb * Bvec ! 0) / (za + zb))"
    using assms(2) by (simp add: type1_direction_def checked_div_Some)
  let ?phi = "atan2 ((za * Avec ! 1 + zb * Bvec ! 1) / (za + zb))
                 ((za * Avec ! 0 + zb * Bvec ! 0) / (za + zb))"
  have "\<exists>h. realSphericalHarmonics Plm0 maxL 0 ?phi (facArray (2 * maxL)) (dfacArray (2 * maxL)) = Some h"
    by (rule realSphericalHarmonics_Some) (rule facArray_nonzero)
  then obtain h
    where h: "realSphericalHarmonics Plm0 maxL 0 ?phi (facArray (2 * maxL)) (dfacArray (2 * maxL)) = Some h"
    by blast
  have "type1_pair_harmonics atan2 Plm0 maxL za zb Avec Bvec pp = Some (0, h)"
    using h by (simp add: type1_pair_harmonics_def dir Let_def)
  with dir show ?thesis by blast
qed


theorem type1_direction_degenerate_witness:
  "buildParameters_pair 1 1 [0, 0, 0] [0, 0, 0] = Some \<lparr>pp_p = 2, pp_P = 0, pp_P2 = 0, pp_K = 1\<rparr> \<and>
   (\<exists>Py Px. type1_direction 1 1 [0, 0, 0] [0, 0, 0] \<lparr>pp_p = 2, pp_P = 0, pp_P2 = 0, pp_K = 1\<rparr>
              = Some (0, Py, Px) \<and>
      (\<exists>harmonics. type1_pair_harmonics (\<lambda>y x. 0) (\<lambda>_. 0) 1 1 1 [0, 0, 0] [0, 0, 0]
                      \<lparr>pp_p = 2, pp_P = 0, pp_P2 = 0, pp_K = 1\<rparr> = Some (0, harmonics)))"
proof -
  have b: "buildParameters_pair 1 1 [0, 0, 0] [0, 0, 0] = Some \<lparr>pp_p = 2, pp_P = 0, pp_P2 = 0, pp_K = 1\<rparr>"
    by (simp add: buildParameters_pair_def calcKij_def checked_div_def Let_def)
  from type1_direction_degenerate [OF b, of "\<lambda>y x. 0" "\<lambda>_. 0" 1] b show ?thesis by simp
qed

section \<open>The two quadrature paths of \<open>RadialIntegral::type2\<close>\<close>

lemmas type2_eval = type2_first_attempt_def type2_start_def type2_small_row_def buildF_def
  buildBessel_def buildU_def buildU_body_def integrate_def integrate_loop.simps integrate_body_def
  ex_type2_def ex_quad_def ex_bessie_def ex_grid2_def ex_U_step_def nprimitive_def
  Matrix_get_def Matrix_set_def Matrix_assign_def Let_def upto.simps power_int_def

lemma type2_start_example:
  "t2_Utab (type2_start ex_type2 ex_grid2 (\<lambda>_. 0)) 0 = 1"
  "t2_Utab (type2_start ex_type2 ex_grid2 (\<lambda>_. 0)) 1 = 0"
  "grid_start (t2_smallGrid (type2_start ex_type2 ex_grid2 (\<lambda>_. 0))) = 0"
  "grid_end (t2_smallGrid (type2_start ex_type2 ex_grid2 (\<lambda>_. 0))) = 0"
  "Matrix_get (t2_Fa (type2_start ex_type2 ex_grid2 (\<lambda>_. 0))) 0 0 = 1"
  "Matrix_get (t2_Fa (type2_start ex_type2 ex_grid2 (\<lambda>_. 0))) 1 0 = 2"
  "Matrix_get (t2_Fb (type2_start ex_type2 ex_grid2 (\<lambda>_. 0))) 0 0 = 1"
  by (simp_all add: type2_eval)


lemma type2_first_example:
  "\<exists>s. type2_first_attempt ex_type2 ex_grid2 (\<lambda>_. 0) = Some s \<and>
     Matrix_get (t2_values s) 0 0 = 1 \<and> Matrix_get (t2_values s) 1 0 = 2 \<and>
     t2_tests s = [Some 1, Some 1] \<and> \<not> t2_failed s"
  by (simp add: type2_eval numeral_2_eq_2)

lemmas type2_fb_eval = type2_fallback_row_def type2_fallback_a_def type2_fallback_b_def

lemma type2_fallback_example:
  "\<exists>s. type2_fallback_row ex_type2 1 1 (type2_first_attempt ex_type2 ex_grid2 (\<lambda>_. 0)) 1 = Some s \<and>
     Matrix_get (t2_values s) 1 0 = 1 \<and> Matrix_get (t2_values s) 0 0 = 1"
  by (simp add: type2_eval type2_fb_eval numeral_2_eq_2)


text \<open>
  Claim C2. The two quadrature paths of \<open>type2\<close> do not compute the same entry. The first
  attempt integrates \<open>Utab[i] * Fa(l1, i) * Fb(l2, i)\<close>; the fallback for the row \<open>l1\<close>
  integrates \<open>Utab[i] * Fa(l2, i) * Fb(l2, i)\<close>, with \<open>Fa\<close> tabulated for the order \<open>l2\<close> at
  the abscissae of the small grid, so the row it writes does not depend on \<open>l1\<close>. On the
  small input above both attempts converge; the first gives 2 for the entry \<open>(1, 0)\<close>, and
  the fallback, run for the row 1, gives 1, the value of the entry \<open>(0, 0)\<close>: they differ by
  more than the tolerance.
\<close>

theorem type2_fallback_disagrees:
  "\<exists>s f. type2_first_attempt ex_type2 ex_grid2 (\<lambda>_. 0) = Some s \<and>
     t2_tests s = [Some 1, Some 1] \<and>
     type2_fallback_row ex_type2 1 1 (Some s) 1 = Some f \<and>
     Matrix_get (t2_values s) 0 0 = 1 \<and> Matrix_get (t2_values s) 1 0 = 2 \<and>
     Matrix_get (t2_values f) 1 0 = 1 \<and>
     e2_tolerance ex_type2 < \<bar>Matrix_get (t2_values s) 1 0 - Matrix_get (t2_values f) 1 0\<bar>"
proof -
  from type2_first_example obtain s
    where s: "type2_first_attempt ex_type2 ex_grid2 (\<lambda>_. 0) = Some s"
      "Matrix_get (t2_values s) 0 0 = 1" "Matrix_get (t2_values s) 1 0 = 2"
      "t2_tests s = [Some 1, Some 1]"
    by blast
  from type2_fallback_example obtain f
    where f: "type2_fallback_row ex_type2 1 1 (Some s) 1 = Some f" "Matrix_get (t2_values f) 1 0 = 1"
    unfolding s(1) by blast
  have "e2_tolerance ex_type2 < \<bar>Matrix_get (t2_values s) 1 0 - Matrix_get (t2_values f) 1 0\<bar>"
    by (simp add: s f ex_type2_def)
  with s f show ?thesis by blast
qed

section \<open>\<open>AngularIntegral::compute\<close> and the symmetry of its Omega table\<close>

lemma facArray_length:
  assumes "0 \<le> L"
  shows "length (facArray L) = nat (L + 1)"
  using facArray_fold [OF assms order_refl] assms by (simp add: facArray_def Let_def)

lemma vec_at_Some:
  assumes "0 \<le> i" "i < int (length v)"
  shows "vec_at v i = Some (v ! nat i)"
  using assms by (simp add: vec_at_def)

lemma vec_at_None:
  assumes "int (length v) \<le> i"
  shows "vec_at v i = None"
  using assms by (simp add: vec_at_def)

lemma foldl_option_Some:
  assumes "\<And>s x. x \<in> set xs \<Longrightarrow> \<exists>s'. f s x = Some s'"
  shows "\<exists>s'. foldl_option f s xs = Some s'"
  using assms
proof (induction xs arbitrary: s)
  case Nil
  show ?case by simp
next
  case (Cons x xs)
  from Cons.prems [of x s] obtain s1 where s1: "f s x = Some s1" by auto
  from Cons.IH [of s1] Cons.prems obtain s2 where "foldl_option f s1 xs = Some s2" by auto
  with s1 show ?case by simp
qed

lemma foldl_option_None:
  assumes "x \<in> set xs" "\<And>s. f s x = None"
  shows "foldl_option f s xs = None"
  using assms(1)
proof (induction xs arbitrary: s)
  case Nil
  then show ?case by simp
next
  case (Cons y ys)
  show ?case
  proof (cases "f s y")
    case None
    then show ?thesis by simp
  next
    case (Some s1)
    show ?thesis
    proof (cases "x = y")
      case True
      with Some assms(2) [of s] show ?thesis by simp
    next
      case False
      with Cons.prems have "x \<in> set ys" by simp
      from Cons.IH [OF this] Some show ?thesis by simp
    qed
  qed
qed

lemma c_div_2_nonneg: "0 \<le> a \<Longrightarrow> c_div a 2 = a div 2"
  by (cases "a = 0") (simp_all add: c_div_def)

lemma c_div_2_le:
  assumes "a \<le> b" "0 \<le> b"
  shows "c_div a 2 \<le> b"
proof (cases "0 \<le> a")
  case True
  then have "c_div a 2 = a div 2" by (rule c_div_2_nonneg)
  also have "\<dots> \<le> a" using True by simp
  finally show ?thesis using assms by simp
next
  case False
  then have "sgn a = - 1" by simp
  then have "c_div a 2 = - (\<bar>a\<bar> div 2)" by (simp add: c_div_def)
  also have "\<dots> \<le> 0" by simp
  finally show ?thesis using assms by simp
qed

lemma calcG_Some:
  assumes "0 \<le> m" "m \<le> l" "l + m < int (length fac)"
  shows "\<exists>g. calcG l m fac = Some g"
  using assms by (simp add: calcG_def vec_at_Some Let_def)

lemma calcG_None:
  assumes "int (length fac) \<le> l + m"
  shows "calcG l m fac = None"
  using assms by (simp add: calcG_def vec_at_None Let_def split: Option.bind_split)

lemma calcH1_Some:
  assumes "j \<le> i" "2 * i \<le> l - m" "0 \<le> m" "2 * l < int (length fac)"
  shows "\<exists>h. calcH1 i j l m fac = Some h"
proof (cases "j > - 1")
  case False
  then show ?thesis by (simp add: calcH1_def)
next
  case True
  with assms have "0 \<le> l" "l < int (length fac)" "0 \<le> j" "j < int (length fac)"
    "0 \<le> l - i" "l - i < int (length fac)" "0 \<le> i - j" "i - j < int (length fac)"
    "0 \<le> 2 * (l - i)" "2 * (l - i) < int (length fac)"
    "0 \<le> l - m - 2 * i" "l - m - 2 * i < int (length fac)"
    by simp_all
  then show ?thesis using True by (simp add: calcH1_def vec_at_Some Let_def)
qed

lemma calcH2_Some:
  assumes "0 \<le> i" "i \<le> j" "j < int (length fac)" "0 \<le> m" "m < int (length fac)"
  shows "\<exists>h. calcH2 i j k m fac = Some h"
proof (cases "m \<ge> k - 2 * i \<and> k - 2 * i \<ge> 0")
  case False
  then have "\<not> (m \<ge> k - 2 * i \<and> k - 2 * i \<ge> 0)" .
  then show ?thesis unfolding calcH2_def Let_def by (simp only: if_False) blast
next
  case True
  with assms have "0 \<le> j" "i < int (length fac)" "0 \<le> j - i" "j - i < int (length fac)"
    "0 \<le> k - 2 * i" "k - 2 * i < int (length fac)"
    "0 \<le> m - (k - 2 * i)" "m - (k - 2 * i) < int (length fac)"
    by simp_all
  then show ?thesis using True assms by (simp add: calcH2_def vec_at_Some Let_def)
qed

lemma uklm_entry_Some:
  assumes "0 \<le> mu" "mu \<le> lam" "0 \<le> k" "0 \<le> l" "k + l \<le> lam" "2 * lam < int (length fac)"
  shows "\<exists>p. uklm_entry lam mu fac g k l = Some p"
proof (cases "c_mod (k + l - mu) 2 = 0")
  case False
  then show ?thesis by (simp add: uklm_entry_def Let_def)
next
  case True
  define j where "j = c_div (k + l - mu) 2"
  have lam0: "0 \<le> lam" using assms by simp
  have jl: "j \<le> lam" unfolding j_def by (rule c_div_2_le) (use assms in simp_all)
  have top: "c_div (lam - mu) 2 = (lam - mu) div 2" using assms by (simp add: c_div_2_nonneg)
  have "\<exists>h. calcH1 i j lam mu fac = Some h" if "i \<in> set [j..c_div (lam - mu) 2]" for i
  proof (rule calcH1_Some)
    from that show "j \<le> i" by simp
    from that have "i \<le> (lam - mu) div 2" by (simp add: top)
    then show "2 * i \<le> lam - mu" by linarith
  qed (use assms in simp_all)
  then have "\<exists>s'. (do { h \<leftarrow> calcH1 i j lam mu fac; Some (s + h) }) = Some s'"
    if "i \<in> set [j..c_div (lam - mu) 2]" for i and s :: real
    using that by fastforce
  from foldl_option_Some [where f = "\<lambda>u1 i. do { h \<leftarrow> calcH1 i j lam mu fac; Some (u1 + h) }", OF this]
  obtain a where a: "foldl_option (\<lambda>u1 i. do { h \<leftarrow> calcH1 i j lam mu fac; Some (u1 + h) })
                          0 [j..c_div (lam - mu) 2] = Some a"
    by blast
  have "\<exists>h. calcH2 i j k mu fac = Some h" if "i \<in> set [0..j]" for i
    by (rule calcH2_Some) (use that assms jl in simp_all)
  then have "\<exists>s'. (do { h \<leftarrow> calcH2 i j k mu fac; Some (s + h) }) = Some s'"
    if "i \<in> set [0..j]" for i and s :: real
    using that by fastforce
  from foldl_option_Some [where f = "\<lambda>u1 i. do { h \<leftarrow> calcH2 i j k mu fac; Some (u1 + h) }", OF this]
  obtain b where b: "foldl_option (\<lambda>u1 i. do { h \<leftarrow> calcH2 i j k mu fac; Some (u1 + h) })
                          0 [0..j] = Some b"
    by blast
  show ?thesis
    using True a b by (simp add: uklm_entry_def Let_def j_def [symmetric])
qed

lemma uklm_Some:
  assumes "0 \<le> mu" "mu \<le> lam" "2 * lam < int (length fac)"
  shows "\<exists>T. uklm lam mu fac = Some T"
proof -
  from calcG_Some [of mu lam fac] assms obtain g where g: "calcG lam mu fac = Some g" by auto
  let ?body = "\<lambda>k values l. do { uum \<leftarrow> uklm_entry lam mu fac g k l;
                       let values = ThreeIndex_set values k l 0 (fst uum);
                       Some (ThreeIndex_set values k l 1 (snd uum)) }"
  have body: "\<exists>s'. ?body k s l = Some s'" if "k \<in> set [0..lam]" "l \<in> set [0..lam - k]" for k l s
  proof -
    from that have "0 \<le> k" "0 \<le> l" "k + l \<le> lam" by simp_all
    from uklm_entry_Some [OF assms(1,2) this assms(3), of g]
    obtain p where "uklm_entry lam mu fac g k l = Some p" by blast
    then show ?thesis by (simp add: Let_def)
  qed
  have inner: "\<exists>s'. foldl_option (?body k) s [0..lam - k] = Some s'" if "k \<in> set [0..lam]" for k s
    by (rule foldl_option_Some) (rule body [OF that])
  have "\<exists>s'. foldl_option (\<lambda>values k. foldl_option (?body k) values [0..lam - k])
           (ThreeIndex_new (lam + 1) (lam + 1) 2) [0..lam] = Some s'"
    by (rule foldl_option_Some) (rule inner)
  then show ?thesis using g by (simp add: uklm_def Let_def)
qed

lemma uklm_None:
  assumes "int (length fac) \<le> lam + mu"
  shows "uklm lam mu fac = None"
  using calcG_None [OF assms] by (simp add: uklm_def Let_def)

lemma makeU_Some:
  assumes "2 * ang_maxL A < int (length fac)"
  shows "\<exists>U. makeU A fac = Some U"
proof -
  let ?body = "\<lambda>lam values mu. do { Uij \<leftarrow> uklm lam mu fac; Some (makeU_copy lam mu Uij values) }"
  have body: "\<exists>s'. ?body lam s mu = Some s'" if "lam \<in> set [0..ang_maxL A]" "mu \<in> set [0..lam]"
    for lam mu s
  proof -
    from that assms have "0 \<le> mu" "mu \<le> lam" "2 * lam < int (length fac)" by simp_all
    from uklm_Some [OF this] obtain T where "uklm lam mu fac = Some T" by blast
    then show ?thesis by simp
  qed
  have inner: "\<exists>s'. foldl_option (?body lam) s [0..lam] = Some s'" if "lam \<in> set [0..ang_maxL A]"
    for lam s
    by (rule foldl_option_Some) (rule body [OF that])
  have "\<exists>s'. foldl_option (\<lambda>values lam. foldl_option (?body lam) values [0..lam]) s [0..ang_maxL A]
           = Some s'" for s
    by (rule foldl_option_Some) (rule inner)
  then show ?thesis by (simp add: makeU_def Let_def)
qed

lemma makeU_None:
  assumes "0 \<le> ang_maxL A" "int (length fac) \<le> 2 * ang_maxL A"
  shows "makeU A fac = None"
proof -
  let ?L = "ang_maxL A"
  let ?body = "\<lambda>lam values mu. do { Uij \<leftarrow> uklm lam mu fac; Some (makeU_copy lam mu Uij values) }"
  have "uklm ?L ?L fac = None" by (rule uklm_None) (use assms in simp)
  then have 1: "?body ?L s ?L = None" for s by simp
  have 2: "foldl_option (?body ?L) s [0..?L] = None" for s
    by (rule foldl_option_None [where x = ?L]) (use assms 1 in simp_all)
  have "foldl_option (\<lambda>values lam. foldl_option (?body lam) values [0..lam]) s [0..?L] = None" for s
    by (rule foldl_option_None [where x = ?L]) (use assms 2 in simp_all)
  then show ?thesis by (simp add: makeU_def Let_def)
qed

lemma makeW_LB [simp]: "ang_LB (makeW A fac U) = ang_LB A" "ang_LE (makeW A fac U) = ang_LE A"
  by (simp_all add: makeW_def Let_def)


lemma init_fields [simp]:
  "ang_LB (AngularIntegral_init A LB LE) = LB"
  "ang_LE (AngularIntegral_init A LB LE) = LE"
  "ang_wDim (AngularIntegral_init A LB LE) = (if 4 * LB > 3 * LB + LE then 4 * LB else 3 * LB + LE)"
  "ang_maxL (AngularIntegral_init A LB LE) = (if 2 * LB > LB + LE then 2 * LB else LB + LE)"
  by (simp_all add: AngularIntegral_init_def)

text \<open>
  The smallest configuration, \<open>LB = LE = 0\<close>, evaluated: \<open>compute\<close> returns, the entry
  \<open>W(0,0,0,0,0)\<close> is \<open>4\<pi> / (\<surd>2 \<surd>(2\<pi>))\<close>, the integral \<open>\<surd>(4\<pi>)\<close> of the spherical harmonic of
  order 0 over the sphere, and the entry \<open>Omega(0,0,0,0,0,0,0)\<close> is 1.
\<close>

lemma compute_example:
  "\<exists>A'. AngularIntegral_compute (AngularIntegral_init ex_blank 0 0) = Some A' \<and>
     getIntegral5 A' 0 0 0 0 0 = 4 * pi / (sqrt 2 * sqrt (2 * pi)) \<and>
     getIntegral7 A' 0 0 0 0 0 0 0 = 4 * pi / (2 * (2 * pi))"
  apply (simp add: AngularIntegral_compute_def AngularIntegral_init_def ex_blank_def makeU_def
      uklm_def uklm_entry_def calcG_def calcH1_def calcH2_def vec_at_def facArray_def Let_def
      upto.simps c_mod_def c_div_def makeU_copy_def makeW_def makeW_m_def makeW_lam_def makeW_sum_def
      range2.simps Pijk_def makeOmega_def makeOmega_k_def makeOmega_l_def makeOmega_m_def
      makeOmega_rho_def makeOmega_sigma_def makeOmega_lam_def makeOmega_mu_def makeOmega_sum_def
      getIntegral5_def getIntegral7_def SevenIndex_get_def
      FiveIndex_get_def FiveIndex_set_def FiveIndex_new_def FiveIndex_cell_def
      ThreeIndex_get_def ThreeIndex_set_def ThreeIndex_new_def ThreeIndex_cell_def
      SevenIndex_set_def SevenIndex_new_def SevenIndex_cell_def Matrix_resize_def
      mul32_def add32_def int32_def real_sqrt_mult real_sqrt_divide)
proof -
  have "sqrt 2 * sqrt pi * sqrt 2 * (sqrt 2 * sqrt pi * sqrt 2)
      = (sqrt 2 * sqrt 2) * (sqrt 2 * sqrt 2) * (sqrt pi * sqrt pi)" by (simp only: ac_simps)
  also have "\<dots> = 4 * pi" by simp
  finally show "sqrt 2 * sqrt pi * sqrt 2 * (sqrt 2 * sqrt pi * sqrt 2) = 4 * pi" .
qed

text \<open>
  Claim C5. \<open>AngularIntegral::compute\<close> builds the factorial table \<open>facArray(wDim)\<close>,
  then \<open>makeU\<close>, \<open>makeW\<close> and \<open>makeOmega\<close>. For a configuration with \<open>0 \<le> LB < LE\<close> the table
  has \<open>3 LB + LE + 1\<close> entries and \<open>calcG\<close>, called by \<open>uklm\<close> for \<open>lam = mu = maxL = LB + LE\<close>,
  reads \<open>fac[2 (LB + LE)]\<close> outside it: the run has no defined Omega table. For a
  configuration with \<open>0 \<le> LE \<le> LB\<close> whose Omega table has extents within the range of the
  index arithmetic, every read of the factorial table is inside it, \<open>compute\<close> returns, and
  the Omega table read through \<open>getIntegral\<close> satisfies
  \<open>Omega(k,l,m,\<rho>,\<sigma>,\<lambda>,\<mu>) = Omega(k,l,m,\<lambda>,\<mu>,\<rho>,\<sigma>)\<close> for all \<open>0 \<le> k, l, m \<le> LB\<close>,
  \<open>0 \<le> \<rho>, \<lambda> \<le> LB + LE\<close>, \<open>|\<sigma>| \<le> \<rho>\<close> and \<open>|\<mu>| \<le> \<lambda>\<close>.
\<close>

theorem AngularIntegral_compute_Omega:
  "(0 \<le> LB \<and> LB < LE \<longrightarrow> AngularIntegral_compute (AngularIntegral_init A LB LE) = None) \<and>
   (0 \<le> LE \<and> LE \<le> LB \<and> Omega_fits LB LE \<longrightarrow>
      (\<exists>A'. AngularIntegral_compute (AngularIntegral_init A LB LE) = Some A' \<and>
         (\<forall>k l m rho sigma lam mu.
            0 \<le> k \<and> k \<le> LB \<and> 0 \<le> l \<and> l \<le> LB \<and> 0 \<le> m \<and> m \<le> LB \<and>
            0 \<le> rho \<and> rho \<le> LB + LE \<and> - rho \<le> sigma \<and> sigma \<le> rho \<and>
            0 \<le> lam \<and> lam \<le> LB + LE \<and> - lam \<le> mu \<and> mu \<le> lam \<longrightarrow>
            getIntegral7 A' k l m rho sigma lam mu = getIntegral7 A' k l m lam mu rho sigma)))"
proof (intro conjI impI)
  let ?A = "AngularIntegral_init A LB LE"
  assume h: "0 \<le> LB \<and> LB < LE"
  then have w: "ang_wDim ?A = 3 * LB + LE" and L: "ang_maxL ?A = LB + LE" by simp_all
  have "length (facArray (ang_wDim ?A)) = nat (3 * LB + LE + 1)"
    unfolding w by (rule facArray_length) (use h in simp)
  then have "makeU ?A (facArray (ang_wDim ?A)) = None"
    using h by (intro makeU_None) (simp_all add: L)
  then show "AngularIntegral_compute ?A = None"
    by (simp add: AngularIntegral_compute_def Let_def)
next
  let ?A = "AngularIntegral_init A LB LE"
  let ?fac = "facArray (ang_wDim ?A)"
  assume h: "0 \<le> LE \<and> LE \<le> LB \<and> Omega_fits LB LE"
  then have w: "ang_wDim ?A = 4 * LB" and L: "ang_maxL ?A = 2 * LB" by auto
  have "length ?fac = nat (4 * LB + 1)"
    unfolding w by (rule facArray_length) (use h in simp)
  then have "\<exists>U. makeU ?A ?fac = Some U"
    using h by (intro makeU_Some) (simp add: L)
  then obtain U where U: "makeU ?A ?fac = Some U" by blast
  let ?A' = "makeOmega (makeW ?A ?fac U) U"
  have run: "AngularIntegral_compute ?A = Some ?A'"
    using U by (simp add: AngularIntegral_compute_def Let_def)
  have "getIntegral7 ?A' k l m rho sigma lam mu = getIntegral7 ?A' k l m lam mu rho sigma"
    if "0 \<le> k \<and> k \<le> LB \<and> 0 \<le> l \<and> l \<le> LB \<and> 0 \<le> m \<and> m \<le> LB \<and>
        0 \<le> rho \<and> rho \<le> LB + LE \<and> - rho \<le> sigma \<and> sigma \<le> rho \<and>
        0 \<le> lam \<and> lam \<le> LB + LE \<and> - lam \<le> mu \<and> mu \<le> lam" for k l m rho sigma lam mu
    by (rule makeOmega_symmetric) (use that h in simp_all)
  with run show "\<exists>A'. AngularIntegral_compute ?A = Some A' \<and>
         (\<forall>k l m rho sigma lam mu.
            0 \<le> k \<and> k \<le> LB \<and> 0 \<le> l \<and> l \<le> LB \<and> 0 \<le> m \<and> m \<le> LB \<and>
            0 \<le> rho \<and> rho \<le> LB + LE \<and> - rho \<le> sigma \<and> sigma \<le> rho \<and>
            0 \<le> lam \<and> lam \<le> LB + LE \<and> - lam \<le> mu \<and> mu \<le> lam \<longrightarrow>
            getIntegral7 A' k l m rho sigma lam mu = getIntegral7 A' k l m lam mu rho sigma)"
    by blast
qed

theorem AngularIntegral_compute_Omega_witness:
  "AngularIntegral_compute (AngularIntegral_init ex_blank 0 1) = None \<and>
   (\<exists>A'. AngularIntegral_compute (AngularIntegral_init ex_blank 1 1) = Some A' \<and>
      getIntegral7 A' 0 1 0 1 (- 1) 0 0 = getIntegral7 A' 0 1 0 0 0 1 (- 1))"
proof -
  from AngularIntegral_compute_Omega [of 0 1 ex_blank]
  have 1: "AngularIntegral_compute (AngularIntegral_init ex_blank 0 1) = None" by simp
  from AngularIntegral_compute_Omega [of 1 1 ex_blank]
  obtain A' where A': "AngularIntegral_compute (AngularIntegral_init ex_blank 1 1) = Some A'"
    and sym: "\<And>k l m rho sigma lam mu.
            0 \<le> k \<and> k \<le> 1 \<and> 0 \<le> l \<and> l \<le> 1 \<and> 0 \<le> m \<and> m \<le> 1 \<and>
            0 \<le> rho \<and> rho \<le> 1 + 1 \<and> - rho \<le> sigma \<and> sigma \<le> rho \<and>
            0 \<le> lam \<and> lam \<le> 1 + 1 \<and> - lam \<le> mu \<and> mu \<le> lam \<Longrightarrow>
            getIntegral7 A' k l m rho sigma lam mu = getIntegral7 A' k l m lam mu rho sigma"
    by (auto simp: Omega_fits_def)
  have "getIntegral7 A' 0 1 0 1 (- 1) 0 0 = getIntegral7 A' 0 1 0 0 0 1 (- 1)"
    by (rule sym) simp
  with 1 A' show ?thesis by blast
qed

end
